theory Spec2Isabelle
  imports Complex_Main
begin

section \<open>Data model (src/index.ts, type declarations)\<close>

text \<open>
  JavaScript numbers are modelled as \<^typ>\<open>real\<close>: the arithmetic of the engine is read
  exactly, without IEEE rounding, infinities or NaN. An optional field of the source
  (\<^verbatim>\<open>alpha?\<close>, \<^verbatim>\<open>basis?\<close>, \<^verbatim>\<open>anchorLine?\<close>, \<^verbatim>\<open>anchorLineTop?\<close>) is an \<open>option\<close>, with
  \<open>None\<close> for \<^verbatim>\<open>undefined\<close>. The fields \<^verbatim>\<open>width\<close> and \<^verbatim>\<open>points\<close> of a stroke are options
  too, because the eraser guards both at run time (\<^verbatim>\<open>stroke.width ?? 0.003\<close>,
  \<^verbatim>\<open>Array.isArray(stroke.points)\<close>): strokes come back from notebook metadata, which
  the type checker never sees.
\<close>

type_synonym point = "real \<times> real"

datatype ToolMode = pen | highlighter

record StrokeBasis =
  width :: real
  height :: real
  minY :: real
  maxY :: real
  anchorLine :: "int option"
  anchorLineTop :: "real option"

record Stroke =
  tool :: ToolMode
  width :: "real option"
  color :: string
  alpha :: "real option"
  points :: "point list option"
  basis :: "StrokeBasis option"

definition META_KEY :: string where
  "META_KEY = ''overlay_v1''"

definition BASE_ERASER_RADIUS :: real where
  "BASE_ERASER_RADIUS = 0.015"


section \<open>Geometry primitives\<close>

definition distanceSquared :: "point \<Rightarrow> point \<Rightarrow> real" where
  "distanceSquared a b =
     (let dx = fst a - fst b;
          dy = snd a - snd b
      in dx * dx + dy * dy)"

definition pointToSegmentDistanceSquared :: "point \<Rightarrow> point \<Rightarrow> point \<Rightarrow> real" where
  "pointToSegmentDistanceSquared p a b =
     (if fst a = fst b \<and> snd a = snd b then distanceSquared p a
      else
        let vx = fst b - fst a;
            vy = snd b - snd a;
            wx = fst p - fst a;
            wy = snd p - snd a;
            c1 = vx * wx + vy * wy;
            c2 = vx * vx + vy * vy;
            t = max 0 (min 1 (c1 / c2));
            proj = (fst a + t * vx, snd a + t * vy)
        in distanceSquared p proj)"

definition segmentDistanceSquared :: "point \<Rightarrow> point \<Rightarrow> point \<Rightarrow> point \<Rightarrow> real" where
  "segmentDistanceSquared a1 a2 b1 b2 =
     min (pointToSegmentDistanceSquared a1 b1 b2)
       (min (pointToSegmentDistanceSquared a2 b1 b2)
         (min (pointToSegmentDistanceSquared b1 a1 a2)
              (pointToSegmentDistanceSquared b2 a1 a2)))"


section \<open>Eraser engine: one stroke\<close>

text \<open>\<^verbatim>\<open>pointerSegment = previous ? [previous, point] : null\<close>; a point is an array, so it is
  truthy whenever it is given.\<close>

definition pointerSegment :: "point \<Rightarrow> point option \<Rightarrow> (point \<times> point) option" where
  "pointerSegment point previous =
     (case previous of Some pv \<Rightarrow> Some (pv, point) | None \<Rightarrow> None)"

definition radiusForStroke :: "Stroke \<Rightarrow> real" where
  "radiusForStroke stroke =
     (let w = (case Stroke.width stroke of Some w \<Rightarrow> w | None \<Rightarrow> 0.003)
      in max BASE_ERASER_RADIUS (w * 6))"

text \<open>\<^verbatim>\<open>keepPoint\<close> closes over \<^verbatim>\<open>point\<close>, \<^verbatim>\<open>previous\<close>, \<^verbatim>\<open>pointerSegment\<close> and \<^verbatim>\<open>radiusSq\<close>;
  here they are arguments.\<close>

definition keepPoint :: "point \<Rightarrow> point option \<Rightarrow> real \<Rightarrow> point \<Rightarrow> bool" where
  "keepPoint point previous radiusSq pt =
     (if distanceSquared pt point \<le> radiusSq then False
      else if (case previous of Some pv \<Rightarrow> distanceSquared pt pv \<le> radiusSq | None \<Rightarrow> False)
        then False
      else if (case pointerSegment point previous of
                 Some (s0, s1) \<Rightarrow> pointToSegmentDistanceSquared pt s0 s1 \<le> radiusSq
               | None \<Rightarrow> False)
        then False
      else True)"

text \<open>\<^verbatim>\<open>crosses\<close> of the \<^verbatim>\<open>forEach\<close> body.\<close>

definition crosses :: "point \<Rightarrow> point option \<Rightarrow> real \<Rightarrow> point \<Rightarrow> point \<Rightarrow> bool" where
  "crosses point previous radiusSq prevPt pt =
     (case pointerSegment point previous of
        Some (s0, s1) \<Rightarrow> segmentDistanceSquared prevPt pt s0 s1 \<le> radiusSq
      | None \<Rightarrow> False)"

text \<open>The three variables the \<^verbatim>\<open>forEach\<close> over the points updates.\<close>

record split_state =
  newSegments :: "point list list"
  currentSegment :: "point list"
  strokeModified :: bool

definition pushCurrent :: "split_state \<Rightarrow> point list list" where
  "pushCurrent st =
     (if length (currentSegment st) > 1 then newSegments st @ [currentSegment st]
      else newSegments st)"

definition splitStep :: "point \<Rightarrow> point option \<Rightarrow> real \<Rightarrow> split_state \<Rightarrow> point \<Rightarrow> split_state" where
  "splitStep point previous radiusSq st pt =
     (if \<not> keepPoint point previous radiusSq pt then
        \<lparr>newSegments = pushCurrent st, currentSegment = [], strokeModified = True\<rparr>
      else if length (currentSegment st) = 0 then
        st\<lparr>currentSegment := currentSegment st @ [pt]\<rparr>
      else if crosses point previous radiusSq (last (currentSegment st)) pt then
        \<lparr>newSegments = pushCurrent st, currentSegment = [pt], strokeModified = True\<rparr>
      else st\<lparr>currentSegment := currentSegment st @ [pt]\<rparr>)"

definition splitPoints :: "point \<Rightarrow> point option \<Rightarrow> real \<Rightarrow> point list \<Rightarrow> split_state" where
  "splitPoints point previous radiusSq pts =
     (let st = foldl (splitStep point previous radiusSq)
                 \<lparr>newSegments = [], currentSegment = [], strokeModified = False\<rparr> pts
      in st\<lparr>newSegments := pushCurrent st\<rparr>)"

text \<open>\<^verbatim>\<open>Math.min(...ys)\<close> and \<^verbatim>\<open>Math.max(...ys)\<close> on the y-coordinates of a segment; the
  segment has at least two points where they are called, so the first one is split off.\<close>

definition mathMin :: "real \<Rightarrow> real list \<Rightarrow> real" where
  "mathMin y ys = foldl min y ys"

definition mathMax :: "real \<Rightarrow> real list \<Rightarrow> real" where
  "mathMax y ys = foldl max y ys"

text \<open>The body of \<^verbatim>\<open>for (const segment of newSegments)\<close>: the strokes pushed for one
  segment (none when \<^verbatim>\<open>segment.length < 2\<close>).\<close>

fun segmentStroke :: "Stroke \<Rightarrow> point list \<Rightarrow> Stroke list" where
  "segmentStroke stroke (p # q # rest) =
     (let segment = p # q # rest;
          segBasis = (case basis stroke of
                        Some b \<Rightarrow> Some (b\<lparr>minY := mathMin (snd p) (map snd (q # rest)),
                                          maxY := mathMax (snd p) (map snd (q # rest))\<rparr>)
                      | None \<Rightarrow> None)
      in [stroke\<lparr>points := Some segment, basis := segBasis\<rparr>])"
| "segmentStroke stroke segment = []"

text \<open>One iteration of \<^verbatim>\<open>for (const stroke of strokes)\<close>: whether the iteration sets
  \<^verbatim>\<open>modified\<close>, and the strokes it pushes on \<^verbatim>\<open>nextStrokes\<close>.\<close>

definition eraseStroke :: "point \<Rightarrow> point option \<Rightarrow> Stroke \<Rightarrow> bool \<times> Stroke list" where
  "eraseStroke point previous stroke =
     (let pts = (case points stroke of Some ps \<Rightarrow> ps | None \<Rightarrow> []) in
      if length pts = 0 then (False, [stroke])
      else
        let radius = radiusForStroke stroke;
            radiusSq = radius * radius;
            st = splitPoints point previous radiusSq pts
        in if \<not> strokeModified st then (False, [stroke])
           else if length (newSegments st) = 0 then (True, [])
           else (True, concat (map (segmentStroke stroke) (newSegments st))))"

fun eraseLoop :: "point \<Rightarrow> point option \<Rightarrow> Stroke list \<Rightarrow> bool \<times> Stroke list \<Rightarrow> bool \<times> Stroke list" where
  "eraseLoop point previous [] acc = acc"
| "eraseLoop point previous (stroke # strokes) (modified, nextStrokes) =
     (case eraseStroke point previous stroke of
        (m, pushed) \<Rightarrow> eraseLoop point previous strokes (modified \<or> m, nextStrokes @ pushed))"


section \<open>The run structure of the specification\<close>

text \<open>
  These two definitions follow the words of the specification, not the loop: the kept
  points of a stroke fall into maximal runs of consecutive kept points, and a run is
  also broken between two consecutive kept points \<open>p\<close>, \<open>q\<close> when \<open>broken p q\<close> holds;
  then \<open>p\<close> ends the earlier run and \<open>q\<close> starts the next one. A point sequence is
  untouched when no point is removed and no break occurs.
\<close>

fun specRuns :: "('a \<Rightarrow> bool) \<Rightarrow> ('a \<Rightarrow> 'a \<Rightarrow> bool) \<Rightarrow> 'a list \<Rightarrow> 'a list list" where
  "specRuns kept broken [] = []"
| "specRuns kept broken [p] = (if kept p then [[p]] else [])"
| "specRuns kept broken (p # q # ps) =
     (if \<not> kept p then specRuns kept broken (q # ps)
      else if kept q \<and> \<not> broken p q then
        (case specRuns kept broken (q # ps) of
           r # rs \<Rightarrow> (p # r) # rs
         | [] \<Rightarrow> [[p]])
      else [p] # specRuns kept broken (q # ps))"

fun untouched :: "('a \<Rightarrow> bool) \<Rightarrow> ('a \<Rightarrow> 'a \<Rightarrow> bool) \<Rightarrow> 'a list \<Rightarrow> bool" where
  "untouched kept broken [] = True"
| "untouched kept broken [p] = kept p"
| "untouched kept broken (p # q # ps) =
     (kept p \<and> \<not> broken p q \<and> untouched kept broken (q # ps))"


section \<open>Renderer\<close>

text \<open>What \<^verbatim>\<open>drawStroke\<close> reads from the host: the canvas's client size, the cell's
  editor (absent, or its \<^verbatim>\<open>getCoordinateForPosition\<close> at column 0, giving the \<^verbatim>\<open>top\<close> of
  the line's coordinate or nothing), and the top of the content's bounding rectangle.\<close>

record render_env =
  clientWidth :: real
  clientHeight :: real
  editor :: "(int \<Rightarrow> real option) option"
  contentTop :: real

datatype path_cmd = moveTo real real | lineTo real real

text \<open>What \<^verbatim>\<open>drawStroke\<close> sets on the 2D context before \<^verbatim>\<open>ctx.stroke()\<close>. The line width
  is \<open>None\<close> when \<^verbatim>\<open>s.width\<close> is missing (the product is NaN).\<close>

record rendering =
  globalAlpha :: real
  lineWidth :: "real option"
  strokeStyle :: string
  path :: "path_cmd list"

definition liveWidth :: "render_env \<Rightarrow> real" where
  "liveWidth env = (if clientWidth env = 0 then 1 else clientWidth env)"

definition liveHeight :: "render_env \<Rightarrow> real" where
  "liveHeight env = (if clientHeight env = 0 then 1 else clientHeight env)"

definition basisWidth :: "render_env \<Rightarrow> Stroke \<Rightarrow> real" where
  "basisWidth env s =
     (case basis s of
        Some b \<Rightarrow> if StrokeBasis.width b \<noteq> 0 \<and> StrokeBasis.width b > 0
                  then StrokeBasis.width b else liveWidth env
      | None \<Rightarrow> liveWidth env)"

definition basisHeight :: "render_env \<Rightarrow> Stroke \<Rightarrow> real" where
  "basisHeight env s =
     (case basis s of
        Some b \<Rightarrow> if height b \<noteq> 0 \<and> height b > 0 then height b else liveHeight env
      | None \<Rightarrow> liveHeight env)"

definition deltaY :: "render_env \<Rightarrow> Stroke \<Rightarrow> real" where
  "deltaY env s =
     (let H = liveHeight env;
          actualHeight = basisHeight env s;
          line = (case basis s of Some b \<Rightarrow> anchorLine b | None \<Rightarrow> None);
          anchorLineTopNorm = (case basis s of Some b \<Rightarrow> anchorLineTop b | None \<Rightarrow> None)
      in if H \<ge> actualHeight then
           (case (line, anchorLineTopNorm, editor env) of
              (Some l, Some topNorm, Some getCoordinateForPosition) \<Rightarrow>
                (case getCoordinateForPosition l of
                   Some lineCoordTop \<Rightarrow>
                     (let newTop = lineCoordTop - contentTop env;
                          originalTop = topNorm * actualHeight
                      in newTop - originalTop)
                 | None \<Rightarrow> 0)
            | _ \<Rightarrow> 0)
         else 0)"

definition strokePath :: "real \<Rightarrow> real \<Rightarrow> real \<Rightarrow> point list \<Rightarrow> path_cmd list" where
  "strokePath actualWidth actualHeight dy pts =
     map (\<lambda>(i, (nx, ny)).
            let x = nx * actualWidth;
                y = ny * actualHeight + dy
            in if i \<noteq> 0 then lineTo x y else moveTo x y)
         (enumerate (0::nat) pts)"

text \<open>\<open>None\<close> is the TypeError of \<^verbatim>\<open>s.points.forEach\<close> on a stroke without points.\<close>

definition drawStroke :: "render_env \<Rightarrow> Stroke \<Rightarrow> rendering option" where
  "drawStroke env s =
     (let actualWidth = basisWidth env s;
          actualHeight = basisHeight env s;
          dy = deltaY env s
      in case points s of
           None \<Rightarrow> None
         | Some pts \<Rightarrow>
             Some \<lparr>globalAlpha = (if tool s = highlighter
                                  then (case alpha s of Some a \<Rightarrow> a | None \<Rightarrow> 0.3) else 1),
                   lineWidth = (case Stroke.width s of
                                  Some w \<Rightarrow> Some (w * actualWidth) | None \<Rightarrow> None),
                   strokeStyle = color s,
                   path = strokePath actualWidth actualHeight dy pts\<rparr>)"

text \<open>The stroke the \<^verbatim>\<open>pointerdown\<close> handler starts in draw mode.\<close>

definition pointerdownStroke :: "render_env \<Rightarrow> ToolMode \<Rightarrow> real \<Rightarrow> string \<Rightarrow> point \<Rightarrow> Stroke" where
  "pointerdownStroke env toolMode widthNorm colour firstPoint =
     \<lparr>tool = toolMode,
      width = Some widthNorm,
      color = colour,
      alpha = Some (if toolMode = highlighter then 0.3 else 1),
      points = Some [firstPoint],
      basis = Some \<lparr>StrokeBasis.width = liveWidth env,
                    height = liveHeight env,
                    minY = snd firstPoint,
                    maxY = snd firstPoint,
                    anchorLine = None,
                    anchorLineTop = None\<rparr>\<rparr>"


section \<open>Metadata synchronizer\<close>

text \<open>The value stored under the key is \<^verbatim>\<open>{ strokes?: Stroke[]; [key: string]: unknown }\<close>;
  \<open>strokes\<close> is \<open>None\<close> when the field is not an array, and the other keys are kept as
  opaque text.\<close>

record OverlayMeta =
  strokes :: "Stroke list option"
  others :: "(string \<times> string) list"

text \<open>What \<^verbatim>\<open>getMetadata(key)\<close> returns: nothing, a value that fails
  \<^verbatim>\<open>value && typeof value === 'object'\<close>, or an object.\<close>

datatype meta_value = Absent | NotAnObject | AnObject OverlayMeta

text \<open>\<^verbatim>\<open>cell.model\<close> and \<^verbatim>\<open>cell.model.sharedModel\<close>: whether the accessor functions exist, and
  the metadata behind them.\<close>

record metadata_model =
  hasGetMetadata :: bool
  hasSetMetadata :: bool
  metadata :: "string \<Rightarrow> meta_value"

text \<open>The state of one cell: the shared model (\<open>None\<close> for \<^verbatim>\<open>null\<close>), the cell model, and the
  number of calls of \<^verbatim>\<open>redraw\<close> so far.\<close>

record cell_state =
  sharedModel :: "metadata_model option"
  cellModel :: metadata_model
  redraws :: nat

text \<open>The two cloning functions of the platform. \<^verbatim>\<open>structuredClone\<close> may not exist; each of
  them returns a value or throws (\<open>None\<close>).\<close>

record platform =
  structuredClone :: "(OverlayMeta \<Rightarrow> OverlayMeta option) option"
  jsonRoundTrip :: "OverlayMeta \<Rightarrow> OverlayMeta option"

definition cloneOverlay :: "platform \<Rightarrow> OverlayMeta \<Rightarrow> OverlayMeta" where
  "cloneOverlay plat input =
     (let viaJSON = (case jsonRoundTrip plat input of Some v \<Rightarrow> v | None \<Rightarrow> input)
      in case structuredClone plat of
           Some f \<Rightarrow> (case f input of Some v \<Rightarrow> v | None \<Rightarrow> viaJSON)
         | None \<Rightarrow> viaJSON)"

definition objectAt :: "metadata_model \<Rightarrow> OverlayMeta option" where
  "objectAt m =
     (if hasGetMetadata m then
        (case metadata m META_KEY of AnObject v \<Rightarrow> Some v | _ \<Rightarrow> None)
      else None)"

definition readMeta :: "platform \<Rightarrow> cell_state \<Rightarrow> OverlayMeta" where
  "readMeta plat c =
     (case (case sharedModel c of Some shared \<Rightarrow> objectAt shared | None \<Rightarrow> None) of
        Some sharedValue \<Rightarrow> cloneOverlay plat sharedValue
      | None \<Rightarrow>
          (case objectAt (cellModel c) of
             Some v \<Rightarrow> cloneOverlay plat v
           | None \<Rightarrow> \<lparr>strokes = Some [], others = []\<rparr>))"

definition setMetadata :: "metadata_model \<Rightarrow> string \<Rightarrow> OverlayMeta \<Rightarrow> metadata_model" where
  "setMetadata m k v = m\<lparr>metadata := (metadata m)(k := AnObject v)\<rparr>"

definition writeMetaCell :: "OverlayMeta \<Rightarrow> cell_state \<Rightarrow> cell_state" where
  "writeMetaCell payload c =
     (if hasSetMetadata (cellModel c)
      then c\<lparr>cellModel := setMetadata (cellModel c) META_KEY payload\<rparr>
      else c)"

definition writeMeta :: "platform \<Rightarrow> OverlayMeta \<Rightarrow> cell_state \<Rightarrow> cell_state" where
  "writeMeta plat v c =
     (let payload = cloneOverlay plat v
      in case sharedModel c of
           Some shared \<Rightarrow>
             if hasSetMetadata shared
             then c\<lparr>sharedModel := Some (setMetadata shared META_KEY payload)\<rparr>
             else writeMetaCell payload c
         | None \<Rightarrow> writeMetaCell payload c)"

text \<open>\<^verbatim>\<open>redraw\<close> repaints the canvas from \<^verbatim>\<open>readMeta()\<close>; it writes nothing to the store, and
  the model counts its calls.\<close>

definition redraw :: "cell_state \<Rightarrow> cell_state" where
  "redraw c = c\<lparr>redraws := redraws c + 1\<rparr>"

definition eraseWithPointer :: "platform \<Rightarrow> point \<Rightarrow> point option \<Rightarrow> cell_state \<Rightarrow> cell_state" where
  "eraseWithPointer plat point previous c =
     (let meta = readMeta plat c;
          strokeList = (case strokes meta of Some ss \<Rightarrow> ss | None \<Rightarrow> [])
      in case eraseLoop point previous strokeList (False, []) of
           (modified, nextStrokes) \<Rightarrow>
             if modified
             then redraw (writeMeta plat (meta\<lparr>strokes := Some nextStrokes\<rparr>) c)
             else c)"

text \<open>A change notification: not an object (\<^verbatim>\<open>!change || typeof change !== 'object'\<close>), or
  an object whose \<^verbatim>\<open>key\<close> and \<^verbatim>\<open>name\<close> properties are each missing or present with a
  value, a string or anything else.\<close>

datatype js_value = JString string | JOther

datatype change = NotObject | ChangeObject "js_value option" "js_value option"

fun onMetadataChanged :: "change \<Rightarrow> cell_state \<Rightarrow> cell_state" where
  "onMetadataChanged NotObject c = redraw c"
| "onMetadataChanged (ChangeObject (Some key) name) c =
     (if key = JString META_KEY then redraw c else c)"
| "onMetadataChanged (ChangeObject None name) c =
     (if name = Some (JString META_KEY) then redraw c else c)"

text \<open>In the words of the specification: an erase event leaves a stroke untouched when no
  point of it is removed and no run is broken between two of its points.\<close>

definition strokeUntouched :: "point \<Rightarrow> point option \<Rightarrow> Stroke \<Rightarrow> bool" where
  "strokeUntouched point previous s =
     (let pts = (case points s of Some ps \<Rightarrow> ps | None \<Rightarrow> []);
          r = radiusForStroke s
      in untouched (keepPoint point previous (r * r)) (crosses point previous (r * r)) pts)"


section \<open>Metadata synchronizer: which object is returned\<close>

text \<open>
  Whether a caller that mutates what \<^verbatim>\<open>readMeta\<close> returns also mutates what the store holds
  depends on which object is returned, not on its content. For that question the same two
  functions are written over an explicit store of objects: an object is an address, the
  metadata under a key is nothing, a value that is not an object, or the address of an
  object, and a call returns or throws.
\<close>

type_synonym ref = nat

text \<open>The objects allocated so far (the addresses below \<open>allocated\<close>) and what each
  holds.\<close>

record object_heap =
  contents :: "ref \<Rightarrow> OverlayMeta"
  allocated :: nat

datatype 'a outcome = Returns 'a | Throws

definition newObject :: "object_heap \<Rightarrow> OverlayMeta \<Rightarrow> object_heap \<times> ref" where
  "newObject h v =
     (h\<lparr>contents := (contents h)(allocated h := v), allocated := allocated h + 1\<rparr>,
      allocated h)"

text \<open>A mutation of the object at an address, such as \<^verbatim>\<open>meta.strokes = []\<close> in
  \<^verbatim>\<open>clearStrokes\<close>: afterwards the object holds \<open>v\<close>.\<close>

definition mutateObject :: "object_heap \<Rightarrow> ref \<Rightarrow> OverlayMeta \<Rightarrow> object_heap" where
  "mutateObject h r v = h\<lparr>contents := (contents h)(r := v)\<rparr>"

text \<open>A call of one of the platform's cloning functions: \<^verbatim>\<open>structuredClone(input)\<close> and
  \<^verbatim>\<open>JSON.parse(JSON.stringify(input))\<close> throw, or build a new object; the platform decides
  which, and what the new object holds.\<close>

definition callClone ::
  "(OverlayMeta \<Rightarrow> OverlayMeta option) \<Rightarrow> object_heap \<Rightarrow> ref \<Rightarrow> (object_heap \<times> ref) outcome" where
  "callClone f h input =
     (case f (contents h input) of
        Some copy \<Rightarrow> Returns (newObject h copy)
      | None \<Rightarrow> Throws)"

text \<open>\<^verbatim>\<open>cloneOverlay\<close> with its two \<^verbatim>\<open>try\<close> blocks: a throw of \<^verbatim>\<open>structuredClone\<close> is ignored,
  a throw of the JSON round trip is answered by \<^verbatim>\<open>return input\<close>.\<close>

definition cloneOverlay_ref :: "platform \<Rightarrow> object_heap \<Rightarrow> ref \<Rightarrow> (object_heap \<times> ref) outcome" where
  "cloneOverlay_ref plat h input =
     (case (case structuredClone plat of
              Some f \<Rightarrow> (case callClone f h input of
                           Returns result \<Rightarrow> Some result
                         | Throws \<Rightarrow> None)
            | None \<Rightarrow> None) of
        Some result \<Rightarrow> Returns result
      | None \<Rightarrow>
          (case callClone (jsonRoundTrip plat) h input of
             Returns result \<Rightarrow> Returns result
           | Throws \<Rightarrow> Returns (h, input)))"

datatype held_value = NothingHeld | NonObjectHeld | ObjectHeld ref

record held_model =
  canGetMetadata :: bool
  held :: "string \<Rightarrow> held_value"

record held_store =
  sharedHeld :: "held_model option"
  cellHeld :: held_model

definition objectAt_ref :: "held_model \<Rightarrow> ref option" where
  "objectAt_ref m =
     (if canGetMetadata m then
        (case held m META_KEY of ObjectHeld r \<Rightarrow> Some r | _ \<Rightarrow> None)
      else None)"

definition readMeta_ref :: "platform \<Rightarrow> object_heap \<Rightarrow> held_store \<Rightarrow> (object_heap \<times> ref) outcome" where
  "readMeta_ref plat h st =
     (case (case sharedHeld st of Some shared \<Rightarrow> objectAt_ref shared | None \<Rightarrow> None) of
        Some sharedValue \<Rightarrow> cloneOverlay_ref plat h sharedValue
      | None \<Rightarrow>
          (case objectAt_ref (cellHeld st) of
             Some v \<Rightarrow> cloneOverlay_ref plat h v
           | None \<Rightarrow> Returns (newObject h \<lparr>strokes = Some [], others = []\<rparr>)))"

text \<open>The metadata model that a held model shows when each object is read by its content,
  and the cell state of the two of them.\<close>

definition shownModel :: "object_heap \<Rightarrow> bool \<Rightarrow> held_model \<Rightarrow> metadata_model" where
  "shownModel h canSet m =
     \<lparr>hasGetMetadata = canGetMetadata m,
      hasSetMetadata = canSet,
      metadata = (\<lambda>k. case held m k of
                         NothingHeld \<Rightarrow> Absent
                       | NonObjectHeld \<Rightarrow> NotAnObject
                       | ObjectHeld r \<Rightarrow> AnObject (contents h r))\<rparr>"

definition shownCell :: "object_heap \<Rightarrow> bool \<Rightarrow> nat \<Rightarrow> held_store \<Rightarrow> cell_state" where
  "shownCell h canSet n st =
     \<lparr>sharedModel = map_option (shownModel h canSet) (sharedHeld st),
      cellModel = shownModel h canSet (cellHeld st),
      redraws = n\<rparr>"


section \<open>Sample data\<close>

text \<open>A vertical pen stroke of five points with an anchored basis, a cell whose metadata
  holds it, a platform whose clones succeed, and a canvas of 200 by 120 pixels over an
  editor whose line 3 starts 40 pixels below the top of the content.\<close>

definition sampleBasis :: StrokeBasis where
  "sampleBasis =
     \<lparr>StrokeBasis.width = 200, height = 100, minY = 0, maxY = 7 / 10,
      anchorLine = Some 3, anchorLineTop = Some (2 / 10)\<rparr>"

definition samplePoints :: "point list" where
  "samplePoints = [(0, 0), (0, 1 / 10), (0, 5 / 10), (0, 6 / 10), (0, 7 / 10)]"

definition sampleStroke :: Stroke where
  "sampleStroke =
     \<lparr>tool = pen, width = Some (3 / 1000), color = ''#ff5722'', alpha = Some 1,
      points = Some samplePoints, basis = Some sampleBasis\<rparr>"

definition samplePlatform :: platform where
  "samplePlatform = \<lparr>structuredClone = Some Some, jsonRoundTrip = Some\<rparr>"

definition sampleCell :: cell_state where
  "sampleCell =
     \<lparr>sharedModel = None,
      cellModel = \<lparr>hasGetMetadata = True, hasSetMetadata = True,
                   metadata = (\<lambda>k. Absent)
                     (META_KEY := AnObject \<lparr>strokes = Some [sampleStroke], others = []\<rparr>)\<rparr>,
      redraws = 0\<rparr>"

definition sampleEnv :: render_env where
  "sampleEnv =
     \<lparr>clientWidth = 200, clientHeight = 120,
      editor = Some (\<lambda>line. if line = 3 then Some 40 else None),
      contentTop = 0\<rparr>"


text \<open>The same cell over the object store: one object, at address 0, held under the key;
  and a platform without \<^verbatim>\<open>structuredClone\<close> whose JSON round trip throws.\<close>

definition sampleHeap :: object_heap where
  "sampleHeap =
     \<lparr>contents = (\<lambda>r. \<lparr>strokes = None, others = []\<rparr>)
        (0 := \<lparr>strokes = Some [sampleStroke], others = []\<rparr>),
      allocated = 1\<rparr>"

definition sampleHeld :: held_store where
  "sampleHeld =
     \<lparr>sharedHeld = None,
      cellHeld = \<lparr>canGetMetadata = True,
                  held = (\<lambda>k. NothingHeld)(META_KEY := ObjectHeld 0)\<rparr>\<rparr>"

definition failingPlatform :: platform where
  "failingPlatform = \<lparr>structuredClone = None, jsonRoundTrip = (\<lambda>v. None)\<rparr>"

section \<open>Auxiliary facts\<close>

subsection \<open>The runs of the specification\<close>

text \<open>The runs are blocks of kept points without a break, and together they are the kept
  points in their order; an untouched sequence is a single run.\<close>

lemma specRuns_drop: "\<not> kept p \<Longrightarrow> specRuns kept broken (p # ps) = specRuns kept broken ps"
  by (cases ps) simp_all

lemma untouched_hd: "untouched kept broken (q # ps) \<Longrightarrow> kept q"
  by (cases ps) simp_all

lemma specRuns_untouched: "untouched kept broken cur \<Longrightarrow> cur \<noteq> [] \<Longrightarrow> specRuns kept broken cur = [cur]"
  by (induction kept broken cur rule: untouched.induct) (auto dest: untouched_hd)

lemma specRuns_break:
  "untouched kept broken cur \<Longrightarrow> cur \<noteq> [] \<Longrightarrow> \<not> (kept p \<and> \<not> broken (last cur) p) \<Longrightarrow>
   specRuns kept broken (cur @ p # ps) = cur # specRuns kept broken (p # ps)"
  by (induction kept broken cur rule: untouched.induct) (auto dest: untouched_hd)

lemma untouched_snoc:
  "untouched kept broken cur \<Longrightarrow> cur \<noteq> [] \<Longrightarrow> kept p \<Longrightarrow> \<not> broken (last cur) p \<Longrightarrow>
   untouched kept broken (cur @ [p])"
  by (induction kept broken cur rule: untouched.induct) (auto dest: untouched_hd)

lemma untouched_append_break:
  "cur \<noteq> [] \<Longrightarrow> \<not> (kept p \<and> \<not> broken (last cur) p) \<Longrightarrow>
   \<not> untouched kept broken (cur @ p # ps)"
  by (induction kept broken cur rule: untouched.induct) (auto dest: untouched_hd)

lemma specRuns_concat: "concat (specRuns kept broken xs) = filter kept xs"
  by (induction kept broken xs rule: specRuns.induct) (auto split: list.splits)

lemma specRuns_hd:
  "kept q \<Longrightarrow> \<exists>r rs. specRuns kept broken (q # ps) = (q # r) # rs"
  by (cases ps) (auto split: list.splits)

lemma specRuns_runs_untouched:
  "run \<in> set (specRuns kept broken xs) \<Longrightarrow> run \<noteq> [] \<and> untouched kept broken run"
proof (induction kept broken xs arbitrary: run rule: specRuns.induct)
  case (3 kept broken p q ps)
  show ?case
  proof (cases "kept p")
    case False
    with 3 show ?thesis by simp
  next
    case True
    show ?thesis
    proof (cases "kept q \<and> \<not> broken p q")
      case False
      with True 3 show ?thesis by auto
    next
      case join: True
      then obtain r rs where e: "specRuns kept broken (q # ps) = (q # r) # rs"
        using specRuns_hd by metis
      with True join "3.prems" have "run = p # q # r \<or> run \<in> set rs" by auto
      then show ?thesis
      proof
        assume "run = p # q # r"
        moreover have "untouched kept broken (q # r)"
          using "3.IH"(2)[of "q # r"] True join e by simp
        ultimately show ?thesis using True join by simp
      next
        assume "run \<in> set rs"
        then show ?thesis using "3.IH"(2)[of run] True join e by simp
      qed
    qed
  qed
qed (auto split: if_splits)


subsection \<open>The loop over the points of a stroke\<close>

text \<open>The invariant of the loop: the current segment is an untouched block, the segments
  pushed so far and the current one are the runs of the points seen, and the flag says
  whether the points seen are touched.\<close>

lemma long_run: "(Suc 0 < length (run :: 'a list)) = (2 \<le> length run)"
  by auto

lemma crosses_Some:
  "crosses point (Some pv) r = (\<lambda>p q. segmentDistanceSquared p q pv point \<le> r)"
  by (simp add: crosses_def pointerSegment_def fun_eq_iff)

lemma foldl_splitStep:
  "untouched (keepPoint point previous r) (crosses point previous r) cur \<Longrightarrow>
   pushCurrent (foldl (splitStep point previous r)
      \<lparr>newSegments = ns, currentSegment = cur, strokeModified = m\<rparr> pts)
   = ns @ filter (\<lambda>run. 1 < length run)
        (specRuns (keepPoint point previous r) (crosses point previous r) (cur @ pts))"
proof (induction pts arbitrary: ns cur m)
  case Nil
  then show ?case
    by (cases "cur = []") (simp_all add: pushCurrent_def specRuns_untouched)
next
  case (Cons p ps)
  show ?case
  proof (cases "keepPoint point previous r p")
    case False
    have "untouched (keepPoint point previous r) (crosses point previous r) []" by simp
    from Cons.IH[OF this] False Cons.prems show ?thesis
      by (cases "cur = []")
         (simp_all add: splitStep_def pushCurrent_def specRuns_drop specRuns_break)
  next
    case True
    show ?thesis
    proof (cases "cur = []")
      case True
      have "untouched (keepPoint point previous r) (crosses point previous r) [p]"
        using \<open>keepPoint point previous r p\<close> by simp
      from Cons.IH[OF this] True \<open>keepPoint point previous r p\<close> show ?thesis
        by (simp add: splitStep_def)
    next
      case False
      show ?thesis
      proof (cases "crosses point previous r (last cur) p")
        case True
        have u: "untouched (keepPoint point previous r) (crosses point previous r) [p]"
          using \<open>keepPoint point previous r p\<close> by simp
        from Cons.IH[OF u] True False \<open>keepPoint point previous r p\<close> Cons.prems show ?thesis
          by (simp add: splitStep_def pushCurrent_def specRuns_break)
      next
        case nc: False
        have u: "untouched (keepPoint point previous r) (crosses point previous r) (cur @ [p])"
          using untouched_snoc[OF Cons.prems False \<open>keepPoint point previous r p\<close> nc] .
        from Cons.IH[OF u] nc False \<open>keepPoint point previous r p\<close> show ?thesis
          by (simp add: splitStep_def)
      qed
    qed
  qed
qed

lemma foldl_splitStep_modified:
  "untouched (keepPoint point previous r) (crosses point previous r) cur \<Longrightarrow>
   strokeModified (foldl (splitStep point previous r)
      \<lparr>newSegments = ns, currentSegment = cur, strokeModified = m\<rparr> pts)
   = (m \<or> \<not> untouched (keepPoint point previous r) (crosses point previous r) (cur @ pts))"
proof (induction pts arbitrary: ns cur m)
  case Nil
  then show ?case by simp
next
  case (Cons p ps)
  show ?case
  proof (cases "keepPoint point previous r p \<and> (cur = [] \<or> \<not> crosses point previous r (last cur) p)")
    case True
    then have u: "untouched (keepPoint point previous r) (crosses point previous r) (cur @ [p])"
      using Cons.prems by (cases "cur = []") (auto intro: untouched_snoc)
    from Cons.IH[OF u] True show ?thesis
      by (auto simp: splitStep_def)
  next
    case False
    from False Cons.prems have nu: "\<not> untouched (keepPoint point previous r) (crosses point previous r) (cur @ p # ps)"
      by (cases "cur = []") (auto dest: untouched_hd simp: untouched_append_break)
    from False have st: "strokeModified (splitStep point previous r \<lparr>newSegments = ns, currentSegment = cur, strokeModified = m\<rparr> p)"
      by (auto simp: splitStep_def)
    have mono: "\<And>st. strokeModified st \<Longrightarrow> strokeModified (foldl (splitStep point previous r) st ps)"
      by (induction ps) (auto simp: splitStep_def)
    from mono[OF st] nu show ?thesis by simp
  qed
qed

lemma splitPoints_newSegments:
  "newSegments (splitPoints point previous r pts) =
     filter (\<lambda>run. 1 < length run)
       (specRuns (keepPoint point previous r) (crosses point previous r) pts)"
  using foldl_splitStep[of point previous r "[]" "[]" False pts]
  by (simp add: splitPoints_def Let_def)

lemma splitPoints_strokeModified:
  "strokeModified (splitPoints point previous r pts) =
     (\<not> untouched (keepPoint point previous r) (crosses point previous r) pts)"
  using foldl_splitStep_modified[of point previous r "[]" "[]" False pts]
  by (simp add: splitPoints_def Let_def)

lemma newSegments_long:
  "run \<in> set (newSegments (splitPoints point previous r pts)) \<Longrightarrow> 2 \<le> length run"
  by (simp add: splitPoints_newSegments long_run)


subsection \<open>The strokes of the segments\<close>

lemma mathMin_Min: "mathMin y ys = Min (set (y # ys))"
  unfolding mathMin_def
proof (induction ys arbitrary: y)
  case Nil
  show ?case by simp
next
  case (Cons z zs)
  have "foldl min y (z # zs) = foldl min (min y z) zs" by simp
  also have "\<dots> = Min (set (min y z # zs))" by (rule Cons.IH)
  also have "\<dots> = Min (set (y # z # zs))"
    by (cases "zs = []") (simp_all add: min.assoc)
  finally show ?case .
qed

lemma mathMax_Max: "mathMax y ys = Max (set (y # ys))"
  unfolding mathMax_def
proof (induction ys arbitrary: y)
  case Nil
  show ?case by simp
next
  case (Cons z zs)
  have "foldl max y (z # zs) = foldl max (max y z) zs" by simp
  also have "\<dots> = Max (set (max y z # zs))" by (rule Cons.IH)
  also have "\<dots> = Max (set (y # z # zs))"
    by (cases "zs = []") (simp_all add: max.assoc)
  finally show ?case .
qed

lemma segmentStroke_long:
  "1 < length run \<Longrightarrow>
   segmentStroke s run =
     [s\<lparr>points := Some run,
        basis := map_option (\<lambda>b. b\<lparr>minY := Min (snd ` set run), maxY := Max (snd ` set run)\<rparr>) (basis s)\<rparr>]"
  by (cases "(s, run)" rule: segmentStroke.cases)
     (simp_all add: mathMin_Min mathMax_Max Let_def split: option.splits)

lemma segmentStroke_points:
  "out \<in> set (segmentStroke s run) \<Longrightarrow> points out = Some run \<and> 2 \<le> length run"
  by (cases "(s, run)" rule: segmentStroke.cases) (auto simp: Let_def)

lemma concat_segmentStroke:
  "\<forall>run\<in>set runs. 1 < length run \<Longrightarrow>
   concat (map (segmentStroke s) runs) =
     map (\<lambda>run. s\<lparr>points := Some run,
        basis := map_option (\<lambda>b. b\<lparr>minY := Min (snd ` set run), maxY := Max (snd ` set run)\<rparr>) (basis s)\<rparr>) runs"
  by (induction runs) (simp_all add: segmentStroke_long)


subsection \<open>The loop over the strokes\<close>

lemma eraseStroke_eq:
  "eraseStroke point previous s =
     (let pts = (case points s of Some ps \<Rightarrow> ps | None \<Rightarrow> []);
          r = radiusForStroke s;
          kept = keepPoint point previous (r * r);
          broken = crosses point previous (r * r)
      in if untouched kept broken pts then (False, [s])
         else (True, concat (map (segmentStroke s)
                 (filter (\<lambda>run. 1 < length run) (specRuns kept broken pts)))))"
  by (simp add: eraseStroke_def Let_def splitPoints_newSegments splitPoints_strokeModified)

lemma eraseStroke_modified:
  "fst (eraseStroke point previous s) \<Longrightarrow>
   snd (eraseStroke point previous s) =
     concat (map (segmentStroke s)
       (newSegments (splitPoints point previous (radiusForStroke s * radiusForStroke s)
          (case points s of Some ps \<Rightarrow> ps | None \<Rightarrow> []))))"
  by (auto simp: eraseStroke_def Let_def split: if_splits)

lemma eraseStroke_untouched:
  "strokeUntouched point previous s \<Longrightarrow> eraseStroke point previous s = (False, [s])"
  by (simp add: eraseStroke_eq strokeUntouched_def Let_def)

lemma eraseStroke_fst: "fst (eraseStroke point previous s) = (\<not> strokeUntouched point previous s)"
  by (simp add: eraseStroke_eq strokeUntouched_def Let_def)

lemma eraseLoop_eq:
  "eraseLoop point previous ss (m, ns) =
     (m \<or> (\<exists>s\<in>set ss. fst (eraseStroke point previous s)),
      ns @ concat (map (\<lambda>s. snd (eraseStroke point previous s)) ss))"
  by (induction ss arbitrary: m ns) (auto split: prod.splits)

lemma eraseLoop_untouched:
  "\<forall>s\<in>set ss. strokeUntouched point previous s \<Longrightarrow>
   eraseLoop point previous ss (False, []) = (False, ss)"
proof -
  assume a: "\<forall>s\<in>set ss. strokeUntouched point previous s"
  then have "concat (map (\<lambda>s. snd (eraseStroke point previous s)) ss) = ss"
    by (induction ss) (simp_all add: eraseStroke_untouched)
  with a show ?thesis by (simp add: eraseLoop_eq eraseStroke_fst)
qed


subsection \<open>The path of a stroke\<close>

lemma strokePath_tail:
  "map (\<lambda>(i, (nx, ny)).
          let x = nx * aw; y = ny * ah + dy
          in if i \<noteq> 0 then lineTo x y else moveTo x y) (enumerate (Suc n) pts) =
   map (\<lambda>(mx, my). lineTo (mx * aw) (my * ah + dy)) pts"
  by (induction pts arbitrary: n) (auto simp: Let_def)

lemma strokePath_eq:
  "strokePath aw ah dy pts =
     (case pts of
        [] \<Rightarrow> []
      | (nx, ny) # rest \<Rightarrow>
          moveTo (nx * aw) (ny * ah + dy) #
          map (\<lambda>(mx, my). lineTo (mx * aw) (my * ah + dy)) rest)"
proof (cases pts)
  case Nil
  then show ?thesis by (simp add: strokePath_def)
next
  case (Cons p rest)
  obtain nx ny where p: "p = (nx, ny)" by (cases p)
  show ?thesis
    unfolding strokePath_def Cons p
    by (simp only: enumerate_simps list.map strokePath_tail) (simp add: Let_def)
qed


subsection \<open>The object read and its content\<close>

lemma cloneOverlay_ref_content:
  "cloneOverlay_ref plat h a = Returns (h', r) \<Longrightarrow> contents h' r = cloneOverlay plat (contents h a)"
  by (auto simp: cloneOverlay_ref_def cloneOverlay_def callClone_def newObject_def Let_def
      split: option.splits outcome.splits)

lemma objectAt_shown: "objectAt (shownModel h w m) = map_option (contents h) (objectAt_ref m)"
  by (simp add: objectAt_def objectAt_ref_def shownModel_def split: held_value.splits)

lemma readMeta_ref_content:
  "readMeta_ref plat h st = Returns (h', r) \<Longrightarrow>
   contents h' r = readMeta plat (shownCell h canSet n st)"
  by (auto simp: readMeta_ref_def readMeta_def shownCell_def objectAt_shown newObject_def
      cloneOverlay_ref_content split: option.splits)


subsection \<open>Unfolding the geometry\<close>

lemmas geo_defs = distanceSquared_def pointToSegmentDistanceSquared_def segmentDistanceSquared_def
  keepPoint_def crosses_def pointerSegment_def radiusForStroke_def BASE_ERASER_RADIUS_def


subsection \<open>The eraser on the sample stroke\<close>

lemma crosses_None: "crosses point None r p q = False"
  by (simp add: crosses_def pointerSegment_def)

lemma sample_radius: "radiusForStroke sampleStroke = 18 / 1000"
  by (simp add: radiusForStroke_def BASE_ERASER_RADIUS_def sampleStroke_def)

lemma sample_kept:
  "keepPoint (0, 5 / 10) None (18 / 1000 * (18 / 1000)) (0, 0)"
  "keepPoint (0, 5 / 10) None (18 / 1000 * (18 / 1000)) (0, 1 / 10)"
  "\<not> keepPoint (0, 5 / 10) None (18 / 1000 * (18 / 1000)) (0, 5 / 10)"
  "keepPoint (0, 5 / 10) None (18 / 1000 * (18 / 1000)) (0, 6 / 10)"
  "keepPoint (0, 5 / 10) None (18 / 1000 * (18 / 1000)) (0, 7 / 10)"
  by (simp_all add: keepPoint_def distanceSquared_def pointerSegment_def Let_def)

lemma sample_runs:
  "specRuns (keepPoint (0, 5 / 10) None (18 / 1000 * (18 / 1000)))
            (crosses (0, 5 / 10) None (18 / 1000 * (18 / 1000))) samplePoints =
     [[(0, 0), (0, 1 / 10)], [(0, 6 / 10), (0, 7 / 10)]]"
  unfolding samplePoints_def
  by (simp only: specRuns.simps sample_kept crosses_None if_True if_False simp_thms list.case)

lemma sample_touched:
  "\<not> untouched (keepPoint (0, 5 / 10) None (18 / 1000 * (18 / 1000)))
            (crosses (0, 5 / 10) None (18 / 1000 * (18 / 1000))) samplePoints"
  unfolding samplePoints_def
  by (simp only: untouched.simps sample_kept crosses_None if_True if_False simp_thms)

lemma sample_split:
  "newSegments (splitPoints (0, 5 / 10) None
      (radiusForStroke sampleStroke * radiusForStroke sampleStroke) samplePoints) =
     [[(0, 0), (0, 1 / 10)], [(0, 6 / 10), (0, 7 / 10)]]"
  unfolding sample_radius splitPoints_newSegments sample_runs by simp

lemma sample_erased: "fst (eraseStroke (0, 5 / 10) None sampleStroke)"
proof -
  have "points sampleStroke = Some samplePoints" by (simp add: sampleStroke_def)
  then show ?thesis
    unfolding eraseStroke_fst strokeUntouched_def Let_def sample_radius
    using sample_touched by simp
qed

lemma sample_far:
  "keepPoint (5 / 10, 5 / 10) None (18 / 1000 * (18 / 1000)) (0, 0)"
  "keepPoint (5 / 10, 5 / 10) None (18 / 1000 * (18 / 1000)) (0, 1 / 10)"
  "keepPoint (5 / 10, 5 / 10) None (18 / 1000 * (18 / 1000)) (0, 5 / 10)"
  "keepPoint (5 / 10, 5 / 10) None (18 / 1000 * (18 / 1000)) (0, 6 / 10)"
  "keepPoint (5 / 10, 5 / 10) None (18 / 1000 * (18 / 1000)) (0, 7 / 10)"
  by (simp_all add: keepPoint_def distanceSquared_def pointerSegment_def Let_def)

lemma sample_untouched: "strokeUntouched (5 / 10, 5 / 10) None sampleStroke"
proof -
  have "points sampleStroke = Some samplePoints" by (simp add: sampleStroke_def)
  moreover have "untouched (keepPoint (5 / 10, 5 / 10) None (18 / 1000 * (18 / 1000)))
            (crosses (5 / 10, 5 / 10) None (18 / 1000 * (18 / 1000))) samplePoints"
    unfolding samplePoints_def
    by (simp only: untouched.simps sample_far crosses_None simp_thms)
  ultimately show ?thesis
    unfolding strokeUntouched_def Let_def sample_radius by simp
qed

lemma sample_read:
  "readMeta samplePlatform sampleCell = \<lparr>strokes = Some [sampleStroke], others = []\<rparr>"
  by (simp add: readMeta_def objectAt_def cloneOverlay_def samplePlatform_def sampleCell_def)


lemma sample_far_swept:
  "keepPoint (5 / 10, 5 / 10) (Some (5 / 10, 5 / 10)) (18 / 1000 * (18 / 1000)) (0, 0)"
  "keepPoint (5 / 10, 5 / 10) (Some (5 / 10, 5 / 10)) (18 / 1000 * (18 / 1000)) (0, 1 / 10)"
  "keepPoint (5 / 10, 5 / 10) (Some (5 / 10, 5 / 10)) (18 / 1000 * (18 / 1000)) (0, 5 / 10)"
  "keepPoint (5 / 10, 5 / 10) (Some (5 / 10, 5 / 10)) (18 / 1000 * (18 / 1000)) (0, 6 / 10)"
  "keepPoint (5 / 10, 5 / 10) (Some (5 / 10, 5 / 10)) (18 / 1000 * (18 / 1000)) (0, 7 / 10)"
  by (simp_all add: keepPoint_def distanceSquared_def pointToSegmentDistanceSquared_def
      pointerSegment_def Let_def)

lemma sample_far_point:
  "pointToSegmentDistanceSquared (0, 0) (5 / 10, 5 / 10) (5 / 10, 5 / 10) = 50 / 100"
  "pointToSegmentDistanceSquared (0, 1 / 10) (5 / 10, 5 / 10) (5 / 10, 5 / 10) = 41 / 100"
  "pointToSegmentDistanceSquared (0, 5 / 10) (5 / 10, 5 / 10) (5 / 10, 5 / 10) = 25 / 100"
  "pointToSegmentDistanceSquared (0, 6 / 10) (5 / 10, 5 / 10) (5 / 10, 5 / 10) = 26 / 100"
  "pointToSegmentDistanceSquared (0, 7 / 10) (5 / 10, 5 / 10) (5 / 10, 5 / 10) = 29 / 100"
  by (simp_all add: distanceSquared_def pointToSegmentDistanceSquared_def Let_def)

lemma sample_far_segment:
  "pointToSegmentDistanceSquared (5 / 10, 5 / 10) (0, 0) (0, 1 / 10) = 41 / 100"
  "pointToSegmentDistanceSquared (5 / 10, 5 / 10) (0, 1 / 10) (0, 5 / 10) = 25 / 100"
  "pointToSegmentDistanceSquared (5 / 10, 5 / 10) (0, 5 / 10) (0, 6 / 10) = 25 / 100"
  "pointToSegmentDistanceSquared (5 / 10, 5 / 10) (0, 6 / 10) (0, 7 / 10) = 26 / 100"
  by (simp_all add: distanceSquared_def pointToSegmentDistanceSquared_def Let_def)

lemma sample_far_crosses:
  "\<not> crosses (5 / 10, 5 / 10) (Some (5 / 10, 5 / 10)) (18 / 1000 * (18 / 1000)) (0, 0) (0, 1 / 10)"
  "\<not> crosses (5 / 10, 5 / 10) (Some (5 / 10, 5 / 10)) (18 / 1000 * (18 / 1000)) (0, 1 / 10) (0, 5 / 10)"
  "\<not> crosses (5 / 10, 5 / 10) (Some (5 / 10, 5 / 10)) (18 / 1000 * (18 / 1000)) (0, 5 / 10) (0, 6 / 10)"
  "\<not> crosses (5 / 10, 5 / 10) (Some (5 / 10, 5 / 10)) (18 / 1000 * (18 / 1000)) (0, 6 / 10) (0, 7 / 10)"
  unfolding crosses_Some segmentDistanceSquared_def sample_far_point sample_far_segment
  by simp_all

lemma sample_untouched_swept:
  "strokeUntouched (5 / 10, 5 / 10) (Some (5 / 10, 5 / 10)) sampleStroke"
proof -
  have "points sampleStroke = Some samplePoints" by (simp add: sampleStroke_def)
  moreover have "untouched (keepPoint (5 / 10, 5 / 10) (Some (5 / 10, 5 / 10)) (18 / 1000 * (18 / 1000)))
            (crosses (5 / 10, 5 / 10) (Some (5 / 10, 5 / 10)) (18 / 1000 * (18 / 1000))) samplePoints"
    unfolding samplePoints_def
    by (simp only: untouched.simps sample_far_swept sample_far_crosses simp_thms)
  ultimately show ?thesis
    unfolding strokeUntouched_def Let_def sample_radius by simp
qed


section \<open>The removal test\<close>

text \<open>
  Claim C1. A point of a stroke of width \<open>w\<close> is removed by an erase event exactly when its
  squared distance to the contact point, or (with a previous point) to the previous point
  or to the segment from the previous point to the contact point, is at most the square
  of the stroke's effective radius, which is \<open>max 0.015 (w * 6)\<close>; otherwise it is kept.
\<close>

theorem keepPoint_removed_iff:
  "radiusForStroke (stroke\<lparr>Stroke.width := Some w\<rparr>) = max 0.015 (w * 6) \<and>
   (let r = radiusForStroke (stroke\<lparr>Stroke.width := Some w\<rparr>) in
    (\<not> keepPoint point previous (r * r) pt) =
      (distanceSquared pt point \<le> r\<^sup>2 \<or>
       (case previous of
          None \<Rightarrow> False
        | Some pv \<Rightarrow> distanceSquared pt pv \<le> r\<^sup>2 \<or>
                    pointToSegmentDistanceSquared pt pv point \<le> r\<^sup>2)))"
  by (simp add: radiusForStroke_def BASE_ERASER_RADIUS_def keepPoint_def pointerSegment_def
      power2_eq_square Let_def split: option.splits)

theorem keepPoint_removed_iff_witness:
  "radiusForStroke sampleStroke = 18 / 1000 \<and>
   \<not> keepPoint (5 / 10, 5 / 10) (Some (4 / 10, 5 / 10)) (18 / 1000 * (18 / 1000)) (45 / 100, 51 / 100) \<and>
   pointToSegmentDistanceSquared (45 / 100, 51 / 100) (4 / 10, 5 / 10) (5 / 10, 5 / 10) \<le> (18 / 1000)\<^sup>2"
proof -
  have s: "sampleStroke\<lparr>Stroke.width := Some (3 / 1000)\<rparr> = sampleStroke"
    by (simp add: sampleStroke_def)
  have d: "pointToSegmentDistanceSquared (45 / 100, 51 / 100) (4 / 10, 5 / 10) (5 / 10, 5 / 10)
      \<le> (18 / 1000)\<^sup>2"
    by (simp add: pointToSegmentDistanceSquared_def distanceSquared_def Let_def power2_eq_square)
  note t = keepPoint_removed_iff [where stroke = sampleStroke and w = "3 / 1000"
      and point = "(5 / 10, 5 / 10)" and previous = "Some (4 / 10, 5 / 10)"
      and pt = "(45 / 100, 51 / 100)", unfolded s Let_def sample_radius, THEN conjunct2]
  from t have "\<not> keepPoint (5 / 10, 5 / 10) (Some (4 / 10, 5 / 10)) (18 / 1000 * (18 / 1000))
      (45 / 100, 51 / 100)"
    using d by (simp only: option.case) blast
  with d sample_radius show ?thesis by blast
qed


section \<open>Runs of kept points\<close>

text \<open>
  Claim C2. With a previous point \<open>pv\<close>, the segments the loop over the points of a stroke
  collects are the runs of the specification that have at least two points: maximal runs
  of consecutive kept points, broken also between two consecutive kept points \<open>p\<close>, \<open>q\<close>
  whenever the squared distance between the segment from \<open>p\<close> to \<open>q\<close> and the swept segment
  from \<open>pv\<close> to the contact point is at most the squared effective radius, \<open>p\<close> ending the
  earlier run and \<open>q\<close> starting the next. The distance between two segments is the least
  of the four distances from an endpoint of one to the other segment.
\<close>

theorem splitPoints_swept_runs:
  "(let r = radiusForStroke s;
        kept = keepPoint point (Some pv) (r * r);
        broken = (\<lambda>p q. segmentDistanceSquared p q pv point \<le> r\<^sup>2)
    in newSegments (splitPoints point (Some pv) (r * r) pts) =
         filter (\<lambda>run. 2 \<le> length run) (specRuns kept broken pts)) \<and>
   segmentDistanceSquared a1 a2 b1 b2 =
     Min {pointToSegmentDistanceSquared a1 b1 b2, pointToSegmentDistanceSquared a2 b1 b2,
          pointToSegmentDistanceSquared b1 a1 a2, pointToSegmentDistanceSquared b2 a1 a2}"
proof
  show "let r = radiusForStroke s;
        kept = keepPoint point (Some pv) (r * r);
        broken = (\<lambda>p q. segmentDistanceSquared p q pv point \<le> r\<^sup>2)
    in newSegments (splitPoints point (Some pv) (r * r) pts) =
         filter (\<lambda>run. 2 \<le> length run) (specRuns kept broken pts)"
    by (simp add: Let_def splitPoints_newSegments crosses_Some long_run power2_eq_square)
  show "segmentDistanceSquared a1 a2 b1 b2 =
     Min {pointToSegmentDistanceSquared a1 b1 b2, pointToSegmentDistanceSquared a2 b1 b2,
          pointToSegmentDistanceSquared b1 a1 a2, pointToSegmentDistanceSquared b2 a1 a2}"
    by (simp add: segmentDistanceSquared_def)
qed

theorem splitPoints_swept_runs_witness:
  "newSegments (splitPoints (1 / 100, 3 / 10) (Some (- 1 / 10, 3 / 10))
      (radiusForStroke sampleStroke * radiusForStroke sampleStroke)
      [(0, 0), (0, 1 / 10), (0, 5 / 10), (0, 6 / 10)]) =
     [[(0, 0), (0, 1 / 10)], [(0, 5 / 10), (0, 6 / 10)]] \<and>
   keepPoint (1 / 100, 3 / 10) (Some (- 1 / 10, 3 / 10)) (18 / 1000 * (18 / 1000)) (0, 1 / 10) \<and>
   keepPoint (1 / 100, 3 / 10) (Some (- 1 / 10, 3 / 10)) (18 / 1000 * (18 / 1000)) (0, 5 / 10) \<and>
   segmentDistanceSquared (0, 1 / 10) (0, 5 / 10) (- 1 / 10, 3 / 10) (1 / 100, 3 / 10)
     \<le> (18 / 1000)\<^sup>2"
proof -
  let ?kept = "keepPoint (1 / 100, 3 / 10) (Some (- 1 / 10, 3 / 10)) (18 / 1000 * (18 / 1000))"
  let ?seg = "\<lambda>p q. segmentDistanceSquared p q (- 1 / 10, 3 / 10) (1 / 100, 3 / 10)"
  have k: "?kept (0, 0)" "?kept (0, 1 / 10)" "?kept (0, 5 / 10)" "?kept (0, 6 / 10)"
    by (simp_all add: geo_defs Let_def)
  have a: "pointToSegmentDistanceSquared (0, 0) (- 1 / 10, 3 / 10) (1 / 100, 3 / 10) = 9 / 100"
    "pointToSegmentDistanceSquared (0, 1 / 10) (- 1 / 10, 3 / 10) (1 / 100, 3 / 10) = 4 / 100"
    "pointToSegmentDistanceSquared (- 1 / 10, 3 / 10) (0, 0) (0, 1 / 10) = 5 / 100"
    "pointToSegmentDistanceSquared (1 / 100, 3 / 10) (0, 0) (0, 1 / 10) = 401 / 10000"
    by (simp_all add: geo_defs Let_def)
  have b: "pointToSegmentDistanceSquared (1 / 100, 3 / 10) (0, 1 / 10) (0, 5 / 10) = 1 / 10000"
    by (simp add: geo_defs Let_def)
  have c: "pointToSegmentDistanceSquared (0, 5 / 10) (- 1 / 10, 3 / 10) (1 / 100, 3 / 10) = 4 / 100"
    "pointToSegmentDistanceSquared (0, 6 / 10) (- 1 / 10, 3 / 10) (1 / 100, 3 / 10) = 9 / 100"
    "pointToSegmentDistanceSquared (- 1 / 10, 3 / 10) (0, 5 / 10) (0, 6 / 10) = 5 / 100"
    "pointToSegmentDistanceSquared (1 / 100, 3 / 10) (0, 5 / 10) (0, 6 / 10) = 401 / 10000"
    by (simp_all add: geo_defs Let_def)
  have s1: "\<not> ?seg (0, 0) (0, 1 / 10) \<le> (18 / 1000)\<^sup>2"
    unfolding segmentDistanceSquared_def a by (simp add: power2_eq_square)
  have s2: "?seg (0, 1 / 10) (0, 5 / 10) \<le> (18 / 1000)\<^sup>2"
    unfolding segmentDistanceSquared_def b by (simp add: power2_eq_square min_le_iff_disj)
  have s3: "\<not> ?seg (0, 5 / 10) (0, 6 / 10) \<le> (18 / 1000)\<^sup>2"
    unfolding segmentDistanceSquared_def c by (simp add: power2_eq_square)
  have runs: "specRuns ?kept (\<lambda>p q. ?seg p q \<le> (18 / 1000)\<^sup>2)
       [(0, 0), (0, 1 / 10), (0, 5 / 10), (0, 6 / 10)] =
     [[(0, 0), (0, 1 / 10)], [(0, 5 / 10), (0, 6 / 10)]]"
    by (simp only: specRuns.simps k s1 s2 s3 if_True if_False simp_thms list.case)
  note t = splitPoints_swept_runs [where s = sampleStroke and point = "(1 / 100, 3 / 10)"
      and pv = "(- 1 / 10, 3 / 10)" and pts = "[(0, 0), (0, 1 / 10), (0, 5 / 10), (0, 6 / 10)]",
      THEN conjunct1, unfolded Let_def]
  have "newSegments (splitPoints (1 / 100, 3 / 10) (Some (- 1 / 10, 3 / 10))
      (radiusForStroke sampleStroke * radiusForStroke sampleStroke)
      [(0, 0), (0, 1 / 10), (0, 5 / 10), (0, 6 / 10)]) =
     [[(0, 0), (0, 1 / 10)], [(0, 5 / 10), (0, 6 / 10)]]"
    using t unfolding sample_radius runs by simp
  with k(2,3) s2 show ?thesis by (simp only: simp_thms)
qed


section \<open>No single-point debris\<close>

text \<open>
  Claim C3. The strokes that the eraser produces from a stroke it modifies are, by their
  points, exactly the runs of at least two kept points: a run of fewer than two points is
  discarded, so each of these strokes has at least two points. Every stroke of the
  rebuilt collection is therefore either a stroke of the old collection that passed
  through untouched or has at least two points. A stroke of two points, one of them
  within the effective radius of the contact point, leaves no stroke at all.
\<close>

theorem erase_min_length:
  "(fst (eraseStroke point previous s) \<longrightarrow>
      (let pts = (case points s of Some ps \<Rightarrow> ps | None \<Rightarrow> []);
           r = radiusForStroke s;
           runs = specRuns (keepPoint point previous (r * r)) (crosses point previous (r * r)) pts
       in map points (snd (eraseStroke point previous s)) =
            map Some (filter (\<lambda>run. 2 \<le> length run) runs)) \<and>
      (\<forall>out\<in>set (snd (eraseStroke point previous s)).
         \<exists>ps. points out = Some ps \<and> 2 \<le> length ps)) \<and>
   (\<forall>out\<in>set (snd (eraseLoop point previous collection (False, []))).
      (out \<in> set collection \<and> eraseStroke point previous out = (False, [out])) \<or>
      (\<exists>ps. points out = Some ps \<and> 2 \<le> length ps)) \<and>
   (points s2 = Some [p, q] \<and>
    (distanceSquared p point \<le> (radiusForStroke s2)\<^sup>2 \<or>
     distanceSquared q point \<le> (radiusForStroke s2)\<^sup>2) \<longrightarrow>
      eraseStroke point previous s2 = (True, []))"
proof (intro conjI impI ballI)
  assume m: "fst (eraseStroke point previous s)"
  let ?pts = "case points s of Some ps \<Rightarrow> ps | None \<Rightarrow> []"
  let ?r = "radiusForStroke s * radiusForStroke s"
  let ?runs = "filter (\<lambda>run. 2 \<le> length run)
      (specRuns (keepPoint point previous ?r) (crosses point previous ?r) ?pts)"
  have n: "newSegments (splitPoints point previous ?r ?pts) = ?runs"
    by (simp add: splitPoints_newSegments long_run)
  have "\<forall>run\<in>set ?runs. 1 < length run" by auto
  then have "snd (eraseStroke point previous s) =
      map (\<lambda>run. s\<lparr>points := Some run,
             basis := map_option
               (\<lambda>b. b\<lparr>minY := Min (snd ` set run), maxY := Max (snd ` set run)\<rparr>)
               (basis s)\<rparr>) ?runs"
    unfolding eraseStroke_modified[OF m] n by (rule concat_segmentStroke)
  then have "map points (snd (eraseStroke point previous s)) = map Some ?runs"
    by simp
  then show "let pts = (case points s of Some ps \<Rightarrow> ps | None \<Rightarrow> []);
           r = radiusForStroke s;
           runs = specRuns (keepPoint point previous (r * r)) (crosses point previous (r * r)) pts
       in map points (snd (eraseStroke point previous s)) =
            map Some (filter (\<lambda>run. 2 \<le> length run) runs)"
    by (simp add: Let_def)
next
  fix out
  assume m: "fst (eraseStroke point previous s)"
    and o: "out \<in> set (snd (eraseStroke point previous s))"
  from o obtain run where "out \<in> set (segmentStroke s run)"
    unfolding eraseStroke_modified[OF m] by auto
  then show "\<exists>ps. points out = Some ps \<and> 2 \<le> length ps"
    using segmentStroke_points by blast
next
  fix out
  assume "out \<in> set (snd (eraseLoop point previous collection (False, [])))"
  then obtain s where s: "s \<in> set collection" and o: "out \<in> set (snd (eraseStroke point previous s))"
    by (auto simp: eraseLoop_eq)
  show "(out \<in> set collection \<and> eraseStroke point previous out = (False, [out])) \<or>
      (\<exists>ps. points out = Some ps \<and> 2 \<le> length ps)"
  proof (cases "fst (eraseStroke point previous s)")
    case True
    from o obtain run where "out \<in> set (segmentStroke s run)"
      unfolding eraseStroke_modified[OF True] by auto
    then show ?thesis using segmentStroke_points by blast
  next
    case False
    then have "eraseStroke point previous s = (False, [s])"
      by (simp add: eraseStroke_fst eraseStroke_untouched)
    with o s show ?thesis by simp
  qed
next
  assume a: "points s2 = Some [p, q] \<and>
    (distanceSquared p point \<le> (radiusForStroke s2)\<^sup>2 \<or>
     distanceSquared q point \<le> (radiusForStroke s2)\<^sup>2)"
  let ?r = "radiusForStroke s2 * radiusForStroke s2"
  from a have "\<not> keepPoint point previous ?r p \<or> \<not> keepPoint point previous ?r q"
    by (auto simp: keepPoint_def power2_eq_square)
  with a show "eraseStroke point previous s2 = (True, [])"
    by (auto simp: eraseStroke_eq Let_def)
qed

theorem erase_min_length_witness:
  "eraseStroke (1 / 10, 11 / 100) None
     \<lparr>tool = highlighter, width = Some (1 / 1000), color = ''#ffff00'', alpha = None,
      points = Some [(1 / 10, 1 / 10), (5 / 10, 5 / 10)], basis = None\<rparr> = (True, []) \<and>
   fst (eraseStroke (0, 5 / 10) None sampleStroke) \<and>
   map points (snd (eraseStroke (0, 5 / 10) None sampleStroke)) =
     [Some [(0, 0), (0, 1 / 10)], Some [(0, 6 / 10), (0, 7 / 10)]] \<and>
   list_all (\<lambda>out. \<exists>ps. points out = Some ps \<and> 2 \<le> length ps)
     (snd (eraseStroke (0, 5 / 10) None sampleStroke)) \<and>
   list_all (\<lambda>out. \<exists>ps. points out = Some ps \<and> 2 \<le> length ps)
     (snd (eraseLoop (0, 5 / 10) None [sampleStroke] (False, [])))"
proof -
  let ?two = "\<lparr>tool = highlighter, width = Some (1 / 1000), color = ''#ffff00'', alpha = None,
      points = Some [(1 / 10, 1 / 10), (5 / 10, 5 / 10)], basis = None\<rparr>"
  have h: "points ?two = Some [(1 / 10, 1 / 10), (5 / 10, 5 / 10)] \<and>
    (distanceSquared (1 / 10, 1 / 10) (1 / 10, 11 / 100) \<le> (radiusForStroke ?two)\<^sup>2 \<or>
     distanceSquared (5 / 10, 5 / 10) (1 / 10, 11 / 100) \<le> (radiusForStroke ?two)\<^sup>2)"
    by (simp add: distanceSquared_def radiusForStroke_def BASE_ERASER_RADIUS_def Let_def
        power2_eq_square)
  note t = erase_min_length [where point = "(0, 5 / 10)" and previous = None
      and s = sampleStroke and collection = "[sampleStroke]"]
  note t' = erase_min_length [where point = "(1 / 10, 11 / 100)" and previous = None
      and ?s2.0 = ?two and p = "(1 / 10, 1 / 10)" and q = "(5 / 10, 5 / 10)"]
  have u: "eraseStroke (0, 5 / 10) None sampleStroke \<noteq> (False, [sampleStroke])"
    using sample_erased by auto
  have two: "eraseStroke (1 / 10, 11 / 100) None ?two = (True, [])"
    using t' h by blast
  have p: "points sampleStroke = Some samplePoints" by (simp add: sampleStroke_def)
  from t sample_erased
  have "let pts = (case points sampleStroke of Some ps \<Rightarrow> ps | None \<Rightarrow> []);
           r = radiusForStroke sampleStroke;
           runs = specRuns (keepPoint (0, 5 / 10) None (r * r)) (crosses (0, 5 / 10) None (r * r)) pts
       in map points (snd (eraseStroke (0, 5 / 10) None sampleStroke)) =
            map Some (filter (\<lambda>run. 2 \<le> length run) runs)"
    by blast
  then have runs: "map points (snd (eraseStroke (0, 5 / 10) None sampleStroke)) =
     [Some [(0, 0), (0, 1 / 10)], Some [(0, 6 / 10), (0, 7 / 10)]]"
    unfolding Let_def p option.case sample_radius sample_runs by simp
  have one: "\<forall>out\<in>set (snd (eraseStroke (0, 5 / 10) None sampleStroke)).
         \<exists>ps. points out = Some ps \<and> 2 \<le> length ps"
    using t sample_erased by blast
  have coll: "\<forall>out\<in>set (snd (eraseLoop (0, 5 / 10) None [sampleStroke] (False, []))).
         \<exists>ps. points out = Some ps \<and> 2 \<le> length ps"
  proof
    fix out
    assume "out \<in> set (snd (eraseLoop (0, 5 / 10) None [sampleStroke] (False, [])))"
    with t have "(out \<in> set [sampleStroke] \<and> eraseStroke (0, 5 / 10) None out = (False, [out])) \<or>
      (\<exists>ps. points out = Some ps \<and> 2 \<le> length ps)" by blast
    with u show "\<exists>ps. points out = Some ps \<and> 2 \<le> length ps" by auto
  qed
  from two runs one coll sample_erased show ?thesis
    unfolding list_all_iff by blast
qed


section \<open>Erasing where nothing is touched\<close>

text \<open>
  Claim C4. When an erase event removes no point and breaks no run in any stroke read
  from the store, every stroke passes through as it is and the loop reports no
  modification; the cell state (both metadata models and the number of redraws) is the
  same afterwards, so nothing was written and no repaint was forced. Repeating the event
  any number of times, or running any sequence of such events one after the other, leaves
  the cell state the same.
\<close>

theorem erase_noop_leaves_store:
  assumes "\<forall>(point, previous)\<in>set events.
             \<forall>s\<in>set (case strokes (readMeta plat c) of Some ss \<Rightarrow> ss | None \<Rightarrow> []).
               strokeUntouched point previous s"
  shows "(\<forall>(point, previous)\<in>set events.
            eraseLoop point previous
              (case strokes (readMeta plat c) of Some ss \<Rightarrow> ss | None \<Rightarrow> []) (False, []) =
              (False, case strokes (readMeta plat c) of Some ss \<Rightarrow> ss | None \<Rightarrow> []) \<and>
            eraseWithPointer plat point previous c = c \<and>
            (eraseWithPointer plat point previous ^^ n) c = c) \<and>
         fold (\<lambda>(point, previous). eraseWithPointer plat point previous) events c = c"
proof -
  let ?ss = "case strokes (readMeta plat c) of Some ss \<Rightarrow> ss | None \<Rightarrow> []"
  have one: "eraseLoop point previous ?ss (False, []) = (False, ?ss) \<and>
             eraseWithPointer plat point previous c = c"
    if "(point, previous) \<in> set events" for point previous
  proof -
    from that assms have "\<forall>s\<in>set ?ss. strokeUntouched point previous s" by blast
    then have l: "eraseLoop point previous ?ss (False, []) = (False, ?ss)"
      by (rule eraseLoop_untouched)
    then show ?thesis by (simp add: eraseWithPointer_def Let_def)
  qed
  have pow: "(eraseWithPointer plat point previous ^^ n) c = c"
    if "(point, previous) \<in> set events" for point previous
    by (induction n) (simp_all add: one[OF that])
  have seq: "fold (\<lambda>(point, previous). eraseWithPointer plat point previous) evs c = c"
    if "set evs \<subseteq> set events" for evs
    using that by (induction evs) (auto simp: one)
  from one pow seq[of events] show ?thesis by auto
qed

theorem erase_noop_leaves_store_witness:
  "fold (\<lambda>(point, previous). eraseWithPointer samplePlatform point previous)
     [((5 / 10, 5 / 10), None), ((5 / 10, 5 / 10), Some (5 / 10, 5 / 10)),
      ((5 / 10, 5 / 10), Some (5 / 10, 5 / 10))] sampleCell = sampleCell \<and>
   (eraseWithPointer samplePlatform (5 / 10, 5 / 10) None ^^ 3) sampleCell = sampleCell \<and>
   eraseWithPointer samplePlatform (5 / 10, 5 / 10) None sampleCell = sampleCell \<and>
   eraseLoop (5 / 10, 5 / 10) None [sampleStroke] (False, []) = (False, [sampleStroke])"
proof -
  let ?events = "[((5 / 10, 5 / 10), None), ((5 / 10, 5 / 10), Some (5 / 10, 5 / 10)),
      ((5 / 10 :: real, 5 / 10 :: real), Some (5 / 10 :: real, 5 / 10 :: real))]"
  have h: "\<forall>(point, previous)\<in>set ?events.
             \<forall>s\<in>set (case strokes (readMeta samplePlatform sampleCell) of
                        Some ss \<Rightarrow> ss | None \<Rightarrow> []).
               strokeUntouched point previous s"
    unfolding sample_read using sample_untouched sample_untouched_swept by simp
  note t = erase_noop_leaves_store [OF h, of 3, unfolded sample_read]
  from t have "eraseLoop (5 / 10, 5 / 10) None [sampleStroke] (False, []) = (False, [sampleStroke]) \<and>
            eraseWithPointer samplePlatform (5 / 10, 5 / 10) None sampleCell = sampleCell \<and>
            (eraseWithPointer samplePlatform (5 / 10, 5 / 10) None ^^ 3) sampleCell = sampleCell"
    by simp
  with t show ?thesis by blast
qed


section \<open>The strokes of the surviving runs\<close>

text \<open>
  Claim C5. When the eraser modifies a stroke, the strokes it pushes are, in order, one for
  each collected run (each of at least two points): the original stroke with the run as its
  points and, if it had a basis, with \<open>minY\<close> and \<open>maxY\<close> of the basis replaced by the least
  and greatest y-coordinate of the run, every other field of the stroke and of the basis
  being the original's. The rebuilt collection is the concatenation, in the order of the
  old collection, of what each stroke leaves.
\<close>

theorem erase_runs_become_strokes:
  assumes "fst (eraseStroke point previous s)"
  shows "(let pts = (case points s of Some ps \<Rightarrow> ps | None \<Rightarrow> []);
              r = radiusForStroke s;
              runs = newSegments (splitPoints point previous (r * r) pts)
          in (\<forall>run\<in>set runs. 2 \<le> length run) \<and>
             snd (eraseStroke point previous s) =
               map (\<lambda>run. s\<lparr>points := Some run,
                      basis := map_option
                        (\<lambda>b. b\<lparr>minY := Min (snd ` set run), maxY := Max (snd ` set run)\<rparr>)
                        (basis s)\<rparr>) runs) \<and>
         (\<forall>out\<in>set (snd (eraseStroke point previous s)).
            tool out = tool s \<and> Stroke.width out = Stroke.width s \<and>
            color out = color s \<and> alpha out = alpha s) \<and>
         snd (eraseLoop point previous collection (False, [])) =
           concat (map (\<lambda>s. snd (eraseStroke point previous s)) collection)"
proof -
  let ?pts = "case points s of Some ps \<Rightarrow> ps | None \<Rightarrow> []"
  let ?runs = "newSegments (splitPoints point previous (radiusForStroke s * radiusForStroke s) ?pts)"
  have long: "\<forall>run\<in>set ?runs. 2 \<le> length run"
    using newSegments_long by blast
  then have long': "\<forall>run\<in>set ?runs. 1 < length run" by auto
  have outs: "snd (eraseStroke point previous s) =
      map (\<lambda>run. s\<lparr>points := Some run,
             basis := map_option
               (\<lambda>b. b\<lparr>minY := Min (snd ` set run), maxY := Max (snd ` set run)\<rparr>)
               (basis s)\<rparr>) ?runs"
    unfolding eraseStroke_modified[OF assms] by (rule concat_segmentStroke[OF long'])
  have fields: "\<forall>out\<in>set (snd (eraseStroke point previous s)).
            tool out = tool s \<and> Stroke.width out = Stroke.width s \<and>
            color out = color s \<and> alpha out = alpha s"
    unfolding outs by auto
  show ?thesis
    unfolding Let_def using long outs fields by (simp add: eraseLoop_eq)
qed

theorem erase_runs_become_strokes_witness:
  "snd (eraseStroke (0, 5 / 10) None sampleStroke) =
     [sampleStroke\<lparr>points := Some [(0, 0), (0, 1 / 10)],
                   basis := Some (sampleBasis\<lparr>minY := 0, maxY := 1 / 10\<rparr>)\<rparr>,
      sampleStroke\<lparr>points := Some [(0, 6 / 10), (0, 7 / 10)],
                   basis := Some (sampleBasis\<lparr>minY := 6 / 10, maxY := 7 / 10\<rparr>)\<rparr>] \<and>
   snd (eraseLoop (0, 5 / 10) None [sampleStroke, sampleStroke] (False, [])) =
     snd (eraseStroke (0, 5 / 10) None sampleStroke) @
     snd (eraseStroke (0, 5 / 10) None sampleStroke)"
proof -
  have p: "points sampleStroke = Some samplePoints" "basis sampleStroke = Some sampleBasis"
    by (simp_all add: sampleStroke_def)
  note t = erase_runs_become_strokes [OF sample_erased, of "[sampleStroke, sampleStroke]",
      unfolded Let_def p option.case sample_split]
  have m: "Min (snd ` set [(0 :: real, 0 :: real), (0, 1 / 10)]) = 0"
    "Max (snd ` set [(0 :: real, 0 :: real), (0, 1 / 10)]) = 1 / 10"
    "Min (snd ` set [(0 :: real, 6 / 10 :: real), (0, 7 / 10)]) = 6 / 10"
    "Max (snd ` set [(0 :: real, 6 / 10 :: real), (0, 7 / 10)]) = 7 / 10"
    by simp_all
  from t show ?thesis
    unfolding list.map option.map m by simp
qed


section \<open>Rendering with an anchor line\<close>

text \<open>
  Claim C6. For a stroke with a basis that records an anchor line and its top: if the live
  height is at least the basis height and the editor resolves the anchor line, \<open>deltaY\<close> is
  the line's current top (relative to the content's top) minus the recorded top times the
  basis height, and otherwise 0; each point \<open>(nx, ny)\<close> is drawn at
  \<open>(nx * basisWidth, ny * basisHeight + deltaY)\<close>, the first by \<open>moveTo\<close> and the others by
  \<open>lineTo\<close>, with line width \<open>width * basisWidth\<close>.
\<close>

theorem drawStroke_anchor_shift:
  assumes "basis s = Some b" and "anchorLine b = Some line" and "anchorLineTop b = Some topNorm"
    and "points s = Some pts" and "Stroke.width s = Some w"
  shows "deltaY env s =
           (case editor env of
              None \<Rightarrow> 0
            | Some getCoordinateForPosition \<Rightarrow>
                (case getCoordinateForPosition line of
                   None \<Rightarrow> 0
                 | Some lineTop \<Rightarrow>
                     if liveHeight env \<ge> basisHeight env s
                     then (lineTop - contentTop env) - topNorm * basisHeight env s
                     else 0)) \<and>
         basisWidth env s = (if StrokeBasis.width b > 0 then StrokeBasis.width b else liveWidth env) \<and>
         basisHeight env s = (if height b > 0 then height b else liveHeight env) \<and>
         (\<exists>r. drawStroke env s = Some r \<and>
              lineWidth r = Some (w * basisWidth env s) \<and>
              path r =
                (case pts of
                   [] \<Rightarrow> []
                 | (nx, ny) # rest \<Rightarrow>
                     moveTo (nx * basisWidth env s) (ny * basisHeight env s + deltaY env s) #
                     map (\<lambda>(mx, my). lineTo (mx * basisWidth env s)
                                         (my * basisHeight env s + deltaY env s)) rest))"
proof (intro conjI)
  show "deltaY env s =
           (case editor env of
              None \<Rightarrow> 0
            | Some getCoordinateForPosition \<Rightarrow>
                (case getCoordinateForPosition line of
                   None \<Rightarrow> 0
                 | Some lineTop \<Rightarrow>
                     if liveHeight env \<ge> basisHeight env s
                     then (lineTop - contentTop env) - topNorm * basisHeight env s
                     else 0))"
    using assms by (simp add: deltaY_def Let_def split: option.splits)
  show "basisWidth env s = (if StrokeBasis.width b > 0 then StrokeBasis.width b else liveWidth env)"
    using assms by (simp add: basisWidth_def)
  show "basisHeight env s = (if height b > 0 then height b else liveHeight env)"
    using assms by (simp add: basisHeight_def)
  show "\<exists>r. drawStroke env s = Some r \<and>
              lineWidth r = Some (w * basisWidth env s) \<and>
              path r =
                (case pts of
                   [] \<Rightarrow> []
                 | (nx, ny) # rest \<Rightarrow>
                     moveTo (nx * basisWidth env s) (ny * basisHeight env s + deltaY env s) #
                     map (\<lambda>(mx, my). lineTo (mx * basisWidth env s)
                                         (my * basisHeight env s + deltaY env s)) rest)"
    using assms by (simp add: drawStroke_def Let_def strokePath_eq)
qed

theorem drawStroke_anchor_shift_witness:
  "deltaY sampleEnv sampleStroke = 20 \<and>
   basisWidth sampleEnv sampleStroke = 200 \<and>
   basisHeight sampleEnv sampleStroke = 100 \<and>
   map_option lineWidth (drawStroke sampleEnv sampleStroke) = Some (Some (3 / 1000 * 200)) \<and>
   map_option path (drawStroke sampleEnv sampleStroke) =
     Some [moveTo (0 * 200) (0 * 100 + 20), lineTo (0 * 200) (1 / 10 * 100 + 20),
           lineTo (0 * 200) (5 / 10 * 100 + 20), lineTo (0 * 200) (6 / 10 * 100 + 20),
           lineTo (0 * 200) (7 / 10 * 100 + 20)] \<and>
   deltaY (sampleEnv\<lparr>clientHeight := 90\<rparr>) sampleStroke = 0"
proof -
  have h: "basis sampleStroke = Some sampleBasis" "anchorLine sampleBasis = Some 3"
    "anchorLineTop sampleBasis = Some (2 / 10)" "points sampleStroke = Some samplePoints"
    "Stroke.width sampleStroke = Some (3 / 1000)"
    by (simp_all add: sampleStroke_def sampleBasis_def)
  note t = drawStroke_anchor_shift [OF h, of sampleEnv]
  note t' = drawStroke_anchor_shift [OF h, of "sampleEnv\<lparr>clientHeight := 90\<rparr>"]
  have w: "basisWidth sampleEnv sampleStroke = 200"
    using t by (simp add: sampleBasis_def)
  have hh: "basisHeight sampleEnv sampleStroke = 100"
    "basisHeight (sampleEnv\<lparr>clientHeight := 90\<rparr>) sampleStroke = 100"
    using t t' by (simp_all add: sampleBasis_def)
  have d: "deltaY sampleEnv sampleStroke = 20"
    using t unfolding hh by (simp add: sampleEnv_def liveHeight_def)
  have d': "deltaY (sampleEnv\<lparr>clientHeight := 90\<rparr>) sampleStroke = 0"
    using t' unfolding hh by (simp add: sampleEnv_def liveHeight_def)
  from t obtain r where r: "drawStroke sampleEnv sampleStroke = Some r"
    "lineWidth r = Some (3 / 1000 * basisWidth sampleEnv sampleStroke)"
    "path r =
       (case samplePoints of
          [] \<Rightarrow> []
        | (nx, ny) # rest \<Rightarrow>
            moveTo (nx * basisWidth sampleEnv sampleStroke)
              (ny * basisHeight sampleEnv sampleStroke + deltaY sampleEnv sampleStroke) #
            map (\<lambda>(mx, my). lineTo (mx * basisWidth sampleEnv sampleStroke)
                   (my * basisHeight sampleEnv sampleStroke + deltaY sampleEnv sampleStroke)) rest)"
    by blast
  have p: "path r = [moveTo (0 * 200) (0 * 100 + 20), lineTo (0 * 200) (1 / 10 * 100 + 20),
           lineTo (0 * 200) (5 / 10 * 100 + 20), lineTo (0 * 200) (6 / 10 * 100 + 20),
           lineTo (0 * 200) (7 / 10 * 100 + 20)]"
    unfolding r(3) w hh d samplePoints_def
    by (simp only: list.case prod.case list.map)
  have l: "lineWidth r = Some (3 / 1000 * 200)" unfolding r(2) w ..
  show ?thesis
    unfolding r(1) option.map p l d d' w hh by (simp only: simp_thms)
qed


section \<open>Reading the store\<close>

text \<open>
  Claim C7, as amended. \<open>readMeta\<close> never fails: a throw of either cloning function is
  caught. Where no metadata model holds an object under the key it returns a new empty
  collection; where one does (the shared model first), it returns the clone of that
  object. The clone is the result of \<open>structuredClone\<close> if that exists and does not throw,
  else the result of the JSON round trip if that does not throw: in both cases a new
  object, so that mutating it changes no object that existed before, the stored one
  included. If both attempts fail, the clone is the stored object itself, and mutating it
  mutates what the store holds. So the object returned is always either new or, with
  both attempts failed, the object held under the key; its content is what \<open>readMeta\<close>
  returns by content.
\<close>

theorem readMeta_ref_independence:
  "(\<exists>h' r. readMeta_ref plat h st = Returns (h', r)) \<and>
   ((\<forall>shared. sharedHeld st = Some shared \<longrightarrow> (\<forall>a. held shared META_KEY \<noteq> ObjectHeld a)) \<and>
    (\<forall>a. held (cellHeld st) META_KEY \<noteq> ObjectHeld a) \<longrightarrow>
      readMeta_ref plat h st = Returns (newObject h \<lparr>strokes = Some [], others = []\<rparr>)) \<and>
   (sharedHeld st = Some shared \<and> canGetMetadata shared \<and> held shared META_KEY = ObjectHeld a \<longrightarrow>
      readMeta_ref plat h st = cloneOverlay_ref plat h a) \<and>
   ((sharedHeld st = None \<or>
     (\<exists>shared. sharedHeld st = Some shared \<and>
        (\<not> canGetMetadata shared \<or> (\<forall>a. held shared META_KEY \<noteq> ObjectHeld a)))) \<and>
    canGetMetadata (cellHeld st) \<and> held (cellHeld st) META_KEY = ObjectHeld a' \<longrightarrow>
      readMeta_ref plat h st = cloneOverlay_ref plat h a') \<and>
   ((\<exists>f. structuredClone plat = Some f \<and> f (contents h b) = Some copy) \<or>
    (structuredClone plat = None \<or> (\<exists>f. structuredClone plat = Some f \<and> f (contents h b) = None)) \<and>
    jsonRoundTrip plat (contents h b) = Some copy \<longrightarrow>
      cloneOverlay_ref plat h b = Returns (newObject h copy) \<and>
      snd (newObject h copy) = allocated h \<and>
      contents (fst (newObject h copy)) (snd (newObject h copy)) = copy \<and>
      (\<forall>old v. old < allocated h \<longrightarrow>
         contents (mutateObject (fst (newObject h copy)) (snd (newObject h copy)) v) old =
           contents h old)) \<and>
   ((structuredClone plat = None \<or> (\<exists>f. structuredClone plat = Some f \<and> f (contents h b) = None)) \<and>
    jsonRoundTrip plat (contents h b) = None \<longrightarrow>
      cloneOverlay_ref plat h b = Returns (h, b) \<and>
      (\<forall>v. contents (mutateObject h b v) b = v)) \<and>
   (readMeta_ref plat h st = Returns (h', r) \<longrightarrow>
      contents h' r = readMeta plat (shownCell h canSet n st) \<and>
      (r = allocated h \<and> allocated h' = allocated h + 1 \<and>
         (\<forall>old v. old < allocated h \<longrightarrow> contents (mutateObject h' r v) old = contents h old) \<or>
       h' = h \<and>
         (\<exists>m. (sharedHeld st = Some m \<or> cellHeld st = m) \<and> held m META_KEY = ObjectHeld r) \<and>
         (structuredClone plat = None \<or>
            (\<exists>f. structuredClone plat = Some f \<and> f (contents h r) = None)) \<and>
         jsonRoundTrip plat (contents h r) = None \<and>
         (\<forall>v. contents (mutateObject h' r v) r = v)))"
proof (intro conjI)
  have c: "\<exists>h' r. cloneOverlay_ref plat h x = Returns (h', r)" for x
    by (cases "newObject h undefined")
       (auto simp: cloneOverlay_ref_def callClone_def newObject_def
         split: option.splits outcome.splits)
  show "\<exists>h' r. readMeta_ref plat h st = Returns (h', r)"
    using c by (auto simp: readMeta_ref_def newObject_def split: option.splits)
  show "(\<forall>shared. sharedHeld st = Some shared \<longrightarrow> (\<forall>a. held shared META_KEY \<noteq> ObjectHeld a)) \<and>
    (\<forall>a. held (cellHeld st) META_KEY \<noteq> ObjectHeld a) \<longrightarrow>
      readMeta_ref plat h st = Returns (newObject h \<lparr>strokes = Some [], others = []\<rparr>)"
    by (auto simp: readMeta_ref_def objectAt_ref_def split: option.splits held_value.splits)
  show "sharedHeld st = Some shared \<and> canGetMetadata shared \<and> held shared META_KEY = ObjectHeld a \<longrightarrow>
      readMeta_ref plat h st = cloneOverlay_ref plat h a"
    by (auto simp: readMeta_ref_def objectAt_ref_def)
  show "(sharedHeld st = None \<or>
     (\<exists>shared. sharedHeld st = Some shared \<and>
        (\<not> canGetMetadata shared \<or> (\<forall>a. held shared META_KEY \<noteq> ObjectHeld a)))) \<and>
    canGetMetadata (cellHeld st) \<and> held (cellHeld st) META_KEY = ObjectHeld a' \<longrightarrow>
      readMeta_ref plat h st = cloneOverlay_ref plat h a'"
    by (auto simp: readMeta_ref_def objectAt_ref_def split: option.splits held_value.splits)
  show "(\<exists>f. structuredClone plat = Some f \<and> f (contents h b) = Some copy) \<or>
    (structuredClone plat = None \<or> (\<exists>f. structuredClone plat = Some f \<and> f (contents h b) = None)) \<and>
    jsonRoundTrip plat (contents h b) = Some copy \<longrightarrow>
      cloneOverlay_ref plat h b = Returns (newObject h copy) \<and>
      snd (newObject h copy) = allocated h \<and>
      contents (fst (newObject h copy)) (snd (newObject h copy)) = copy \<and>
      (\<forall>old v. old < allocated h \<longrightarrow>
         contents (mutateObject (fst (newObject h copy)) (snd (newObject h copy)) v) old =
           contents h old)"
    by (auto simp: cloneOverlay_ref_def callClone_def newObject_def mutateObject_def)
  show "(structuredClone plat = None \<or> (\<exists>f. structuredClone plat = Some f \<and> f (contents h b) = None)) \<and>
    jsonRoundTrip plat (contents h b) = None \<longrightarrow>
      cloneOverlay_ref plat h b = Returns (h, b) \<and>
      (\<forall>v. contents (mutateObject h b v) b = v)"
    by (auto simp: cloneOverlay_ref_def callClone_def mutateObject_def)
  show "readMeta_ref plat h st = Returns (h', r) \<longrightarrow>
      contents h' r = readMeta plat (shownCell h canSet n st) \<and>
      (r = allocated h \<and> allocated h' = allocated h + 1 \<and>
         (\<forall>old v. old < allocated h \<longrightarrow> contents (mutateObject h' r v) old = contents h old) \<or>
       h' = h \<and>
         (\<exists>m. (sharedHeld st = Some m \<or> cellHeld st = m) \<and> held m META_KEY = ObjectHeld r) \<and>
         (structuredClone plat = None \<or>
            (\<exists>f. structuredClone plat = Some f \<and> f (contents h r) = None)) \<and>
         jsonRoundTrip plat (contents h r) = None \<and>
         (\<forall>v. contents (mutateObject h' r v) r = v))"
  proof
    assume res: "readMeta_ref plat h st = Returns (h', r)"
    have cl: "r = allocated h \<and> allocated h' = allocated h + 1 \<and>
         (\<forall>old v. old < allocated h \<longrightarrow> contents (mutateObject h' r v) old = contents h old) \<or>
       h' = h \<and> r = x \<and>
         (structuredClone plat = None \<or>
            (\<exists>f. structuredClone plat = Some f \<and> f (contents h r) = None)) \<and>
         jsonRoundTrip plat (contents h r) = None \<and>
         (\<forall>v. contents (mutateObject h' r v) r = v)"
      if "cloneOverlay_ref plat h x = Returns (h', r)" for x
      using that
      by (auto simp: cloneOverlay_ref_def callClone_def newObject_def mutateObject_def
          split: option.splits outcome.splits)
    have sel: "r = allocated h \<and> allocated h' = allocated h + 1 \<and>
         (\<forall>old v. old < allocated h \<longrightarrow> contents (mutateObject h' r v) old = contents h old) \<or>
       h' = h \<and>
         (\<exists>m. (sharedHeld st = Some m \<or> cellHeld st = m) \<and> held m META_KEY = ObjectHeld r) \<and>
         (structuredClone plat = None \<or>
            (\<exists>f. structuredClone plat = Some f \<and> f (contents h r) = None)) \<and>
         jsonRoundTrip plat (contents h r) = None \<and>
         (\<forall>v. contents (mutateObject h' r v) r = v)"
    proof (cases "case sharedHeld st of Some shared \<Rightarrow> objectAt_ref shared | None \<Rightarrow> None")
      case (Some x)
      then obtain m where m: "sharedHeld st = Some m" "held m META_KEY = ObjectHeld x"
        by (auto simp: objectAt_ref_def split: option.splits if_splits held_value.splits)
      from res Some have "cloneOverlay_ref plat h x = Returns (h', r)"
        by (simp add: readMeta_ref_def)
      from cl[OF this] m show ?thesis by blast
    next
      case None
      show ?thesis
      proof (cases "objectAt_ref (cellHeld st)")
        case (Some x)
        then have m: "held (cellHeld st) META_KEY = ObjectHeld x"
          by (auto simp: objectAt_ref_def split: if_splits held_value.splits)
        from res None Some have "cloneOverlay_ref plat h x = Returns (h', r)"
          by (simp add: readMeta_ref_def)
        from cl[OF this] m show ?thesis by blast
      next
        case n: None
        with res None show ?thesis
          by (auto simp: readMeta_ref_def newObject_def mutateObject_def)
      qed
    qed
    from readMeta_ref_content[OF res] sel
    show "contents h' r = readMeta plat (shownCell h canSet n st) \<and>
      (r = allocated h \<and> allocated h' = allocated h + 1 \<and>
         (\<forall>old v. old < allocated h \<longrightarrow> contents (mutateObject h' r v) old = contents h old) \<or>
       h' = h \<and>
         (\<exists>m. (sharedHeld st = Some m \<or> cellHeld st = m) \<and> held m META_KEY = ObjectHeld r) \<and>
         (structuredClone plat = None \<or>
            (\<exists>f. structuredClone plat = Some f \<and> f (contents h r) = None)) \<and>
         jsonRoundTrip plat (contents h r) = None \<and>
         (\<forall>v. contents (mutateObject h' r v) r = v))"
      by blast
  qed
qed

theorem readMeta_ref_independence_witness:
  "readMeta_ref samplePlatform sampleHeap sampleHeld =
     Returns (newObject sampleHeap \<lparr>strokes = Some [sampleStroke], others = []\<rparr>) \<and>
   snd (newObject sampleHeap \<lparr>strokes = Some [sampleStroke], others = []\<rparr>) = 1 \<and>
   contents (mutateObject
       (fst (newObject sampleHeap \<lparr>strokes = Some [sampleStroke], others = []\<rparr>)) 1
       \<lparr>strokes = Some [], others = []\<rparr>) 0 =
     \<lparr>strokes = Some [sampleStroke], others = []\<rparr> \<and>
   readMeta_ref failingPlatform sampleHeap sampleHeld = Returns (sampleHeap, 0) \<and>
   readMeta_ref failingPlatform sampleHeap
     (sampleHeld\<lparr>cellHeld := \<lparr>canGetMetadata = True, held = (\<lambda>k. NonObjectHeld)\<rparr>\<rparr>) =
     Returns (newObject sampleHeap \<lparr>strokes = Some [], others = []\<rparr>)"
proof -
  let ?meta = "\<lparr>strokes = Some [sampleStroke], others = []\<rparr>"
  let ?none = "sampleHeld\<lparr>cellHeld := \<lparr>canGetMetadata = True, held = (\<lambda>k. NonObjectHeld)\<rparr>\<rparr>"
  have c0: "contents sampleHeap 0 = ?meta" by (simp add: sampleHeap_def)
  have al: "allocated sampleHeap = 1" by (simp add: sampleHeap_def)
  note good = readMeta_ref_independence [where plat = samplePlatform and h = sampleHeap
      and st = sampleHeld and a' = 0 and b = 0 and copy = ?meta]
  note bad = readMeta_ref_independence [where plat = failingPlatform and h = sampleHeap
      and st = sampleHeld and a' = 0 and b = 0]
  note none = readMeta_ref_independence [where plat = failingPlatform and h = sampleHeap
      and st = ?none]
  have r1: "readMeta_ref samplePlatform sampleHeap sampleHeld = cloneOverlay_ref samplePlatform sampleHeap 0"
    using good by (simp add: sampleHeld_def)
  have hyp: "(\<exists>f. structuredClone samplePlatform = Some f \<and> f (contents sampleHeap 0) = Some ?meta) \<or>
    (structuredClone samplePlatform = None \<or>
       (\<exists>f. structuredClone samplePlatform = Some f \<and> f (contents sampleHeap 0) = None)) \<and>
    jsonRoundTrip samplePlatform (contents sampleHeap 0) = Some ?meta"
    by (simp add: samplePlatform_def c0)
  have r2: "cloneOverlay_ref samplePlatform sampleHeap 0 = Returns (newObject sampleHeap ?meta) \<and>
      snd (newObject sampleHeap ?meta) = allocated sampleHeap \<and>
      (\<forall>old v. old < allocated sampleHeap \<longrightarrow>
         contents (mutateObject (fst (newObject sampleHeap ?meta)) (snd (newObject sampleHeap ?meta)) v) old =
           contents sampleHeap old)"
    using good hyp by blast
  have r3: "readMeta_ref failingPlatform sampleHeap sampleHeld = cloneOverlay_ref failingPlatform sampleHeap 0"
    using bad by (simp add: sampleHeld_def)
  have hyp': "(structuredClone failingPlatform = None \<or>
       (\<exists>f. structuredClone failingPlatform = Some f \<and> f (contents sampleHeap 0) = None)) \<and>
    jsonRoundTrip failingPlatform (contents sampleHeap 0) = None"
    by (simp add: failingPlatform_def)
  have r4: "cloneOverlay_ref failingPlatform sampleHeap 0 = Returns (sampleHeap, 0)"
    using bad hyp' by blast
  have r5: "readMeta_ref failingPlatform sampleHeap ?none =
     Returns (newObject sampleHeap \<lparr>strokes = Some [], others = []\<rparr>)"
    using none by (simp add: sampleHeld_def)
  from r2 have "snd (newObject sampleHeap ?meta) = 1" and
    "\<forall>old v. old < 1 \<longrightarrow>
         contents (mutateObject (fst (newObject sampleHeap ?meta)) (snd (newObject sampleHeap ?meta)) v) old =
           contents sampleHeap old"
    unfolding al by blast+
  then have s: "snd (newObject sampleHeap ?meta) = 1"
    and m: "contents (mutateObject (fst (newObject sampleHeap ?meta)) 1
       \<lparr>strokes = Some [], others = []\<rparr>) 0 = ?meta"
    using c0 by auto
  from r1 r2 r3 r4 r5 s m show ?thesis by (simp only: simp_thms)
qed

text \<open>
  Claim C7 as stated fails: on a platform without \<open>structuredClone\<close> whose JSON round trip
  throws, \<open>readMeta\<close> returns the object the store holds under the key, and the assignment
  \<open>meta.strokes = []\<close> to what was returned changes that stored object.
\<close>

theorem readMeta_ref_counterexample:
  "held (cellHeld sampleHeld) META_KEY = ObjectHeld 0 \<and>
   contents sampleHeap 0 = \<lparr>strokes = Some [sampleStroke], others = []\<rparr> \<and>
   readMeta_ref failingPlatform sampleHeap sampleHeld = Returns (sampleHeap, 0) \<and>
   contents (mutateObject sampleHeap 0 \<lparr>strokes = Some [], others = []\<rparr>) 0 =
     \<lparr>strokes = Some [], others = []\<rparr> \<and>
   contents (mutateObject sampleHeap 0 \<lparr>strokes = Some [], others = []\<rparr>) 0 \<noteq>
     contents sampleHeap 0"
  by (simp add: sampleHeld_def sampleHeap_def failingPlatform_def readMeta_ref_def
      objectAt_ref_def cloneOverlay_ref_def callClone_def mutateObject_def)


section \<open>Change notifications\<close>

text \<open>
  Claim C8, as amended. The handler redraws exactly when the notification is not an
  object, or has a \<open>key\<close> property equal to the fixed key, or has no \<open>key\<close> property and a
  \<open>name\<close> property equal to the fixed key. An object with neither property, and an object
  whose \<open>key\<close> is another key, cause no redraw, whatever \<open>name\<close> is. The handler never
  changes the metadata.
\<close>

theorem onMetadataChanged_redraws:
  "onMetadataChanged ch c =
     (if ch = NotObject \<or>
         (\<exists>name. ch = ChangeObject (Some (JString META_KEY)) name) \<or>
         ch = ChangeObject None (Some (JString META_KEY))
      then c\<lparr>redraws := redraws c + 1\<rparr> else c) \<and>
   sharedModel (onMetadataChanged ch c) = sharedModel c \<and>
   cellModel (onMetadataChanged ch c) = cellModel c"
  by (cases "(ch, c)" rule: onMetadataChanged.cases) (auto simp: redraw_def)

theorem onMetadataChanged_redraws_witness:
  "onMetadataChanged NotObject sampleCell = sampleCell\<lparr>redraws := 1\<rparr> \<and>
   onMetadataChanged (ChangeObject (Some (JString ''overlay_v1'')) None) sampleCell =
     sampleCell\<lparr>redraws := 1\<rparr> \<and>
   onMetadataChanged (ChangeObject None (Some (JString ''overlay_v1''))) sampleCell =
     sampleCell\<lparr>redraws := 1\<rparr> \<and>
   onMetadataChanged (ChangeObject None None) sampleCell = sampleCell \<and>
   onMetadataChanged (ChangeObject (Some (JString ''other'')) (Some (JString ''overlay_v1'')))
     sampleCell = sampleCell"
  using onMetadataChanged_redraws [of NotObject sampleCell]
    onMetadataChanged_redraws [of "ChangeObject (Some (JString ''overlay_v1'')) None" sampleCell]
    onMetadataChanged_redraws [of "ChangeObject None (Some (JString ''overlay_v1''))" sampleCell]
    onMetadataChanged_redraws [of "ChangeObject None None" sampleCell]
    onMetadataChanged_redraws [of "ChangeObject (Some (JString ''other''))
       (Some (JString ''overlay_v1''))" sampleCell]
  by (simp add: META_KEY_def sampleCell_def)


text \<open>
  Claim C8 as stated fails: a notification whose \<open>name\<close> is the fixed key, but whose \<open>key\<close>
  is another key, causes no redraw; neither does a notification object that has neither
  property, a shape the handler does not recognise.
\<close>

theorem onMetadataChanged_counterexample:
  "redraws (onMetadataChanged
      (ChangeObject (Some (JString ''other'')) (Some (JString ''overlay_v1'')))
      \<lparr>sharedModel = None,
       cellModel = \<lparr>hasGetMetadata = True, hasSetMetadata = True, metadata = (\<lambda>k. Absent)\<rparr>,
       redraws = 0\<rparr>) = 0 \<and>
   redraws (onMetadataChanged (ChangeObject None None)
      \<lparr>sharedModel = None,
       cellModel = \<lparr>hasGetMetadata = True, hasSetMetadata = True, metadata = (\<lambda>k. Absent)\<rparr>,
       redraws = 0\<rparr>) = 0 \<and>
   META_KEY = ''overlay_v1''"
  by (simp add: META_KEY_def)


section \<open>The alpha of a rendered stroke\<close>

text \<open>
  Claim C9, as amended. A highlighter stroke is drawn with its own alpha, or 0.3 when it
  has none; a pen stroke is always drawn with alpha 1, whatever its alpha field holds.
  A stroke started by the \<open>pointerdown\<close> handler carries alpha 0.3 for the highlighter and 1
  for the pen, and is drawn with the alpha it carries.
\<close>

theorem drawStroke_alpha:
  "(points s = Some pts \<longrightarrow>
      map_option globalAlpha (drawStroke env s) =
        Some (if tool s = highlighter
              then (case alpha s of Some a \<Rightarrow> a | None \<Rightarrow> 0.3)
              else 1)) \<and>
   alpha (pointerdownStroke env toolMode widthNorm colour firstPoint) =
     Some (if toolMode = highlighter then 0.3 else 1) \<and>
   map_option globalAlpha (drawStroke env' (pointerdownStroke env toolMode widthNorm colour firstPoint)) =
     alpha (pointerdownStroke env toolMode widthNorm colour firstPoint)"
  by (cases toolMode) (simp_all add: drawStroke_def pointerdownStroke_def Let_def)

theorem drawStroke_alpha_witness:
  "map_option globalAlpha (drawStroke sampleEnv (sampleStroke\<lparr>tool := highlighter, alpha := None\<rparr>)) =
     Some (3 / 10) \<and>
   map_option globalAlpha
     (drawStroke sampleEnv (sampleStroke\<lparr>tool := highlighter, alpha := Some (1 / 2)\<rparr>)) =
     Some (1 / 2) \<and>
   map_option globalAlpha (drawStroke sampleEnv (sampleStroke\<lparr>alpha := Some (1 / 2)\<rparr>)) = Some 1 \<and>
   map_option globalAlpha
     (drawStroke sampleEnv (pointerdownStroke sampleEnv highlighter (1 / 100) ''#ffff00'' (0, 0))) =
     Some (3 / 10)"
proof -
  have p: "points (sampleStroke\<lparr>tool := highlighter, alpha := None\<rparr>) = Some samplePoints"
    "points (sampleStroke\<lparr>tool := highlighter, alpha := Some (1 / 2)\<rparr>) = Some samplePoints"
    "points (sampleStroke\<lparr>alpha := Some (1 / 2)\<rparr>) = Some samplePoints"
    by (simp_all add: sampleStroke_def)
  have a: "map_option globalAlpha (drawStroke sampleEnv (sampleStroke\<lparr>tool := highlighter, alpha := None\<rparr>)) =
     Some (3 / 10)"
    using drawStroke_alpha [where s = "sampleStroke\<lparr>tool := highlighter, alpha := None\<rparr>"
        and pts = samplePoints and env = sampleEnv] p
    by simp
  have b: "map_option globalAlpha
     (drawStroke sampleEnv (sampleStroke\<lparr>tool := highlighter, alpha := Some (1 / 2)\<rparr>)) =
     Some (1 / 2)"
    using drawStroke_alpha [where s = "sampleStroke\<lparr>tool := highlighter, alpha := Some (1 / 2)\<rparr>"
        and pts = samplePoints and env = sampleEnv] p
    by simp
  have c: "map_option globalAlpha (drawStroke sampleEnv (sampleStroke\<lparr>alpha := Some (1 / 2)\<rparr>)) = Some 1"
    using drawStroke_alpha [where s = "sampleStroke\<lparr>alpha := Some (1 / 2)\<rparr>"
        and pts = samplePoints and env = sampleEnv] p
    by (simp add: sampleStroke_def)
  have d: "map_option globalAlpha
     (drawStroke sampleEnv (pointerdownStroke sampleEnv highlighter (1 / 100) ''#ffff00'' (0, 0))) =
     Some (3 / 10)"
    using drawStroke_alpha [where env' = sampleEnv and env = sampleEnv and toolMode = highlighter
        and widthNorm = "1 / 100" and colour = "''#ffff00''" and firstPoint = "(0, 0)"]
    by (simp add: pointerdownStroke_def)
  from a b c d show ?thesis by (simp only: simp_thms)
qed


text \<open>
  Claim C9 as stated fails: a pen stroke with alpha 0.5 is drawn with alpha 1.
\<close>

theorem drawStroke_alpha_counterexample:
  "map_option globalAlpha
     (drawStroke \<lparr>clientWidth = 100, clientHeight = 100, editor = None, contentTop = 0\<rparr>
        \<lparr>tool = pen, width = Some 0.003, color = ''#ff5722'', alpha = Some 0.5,
         points = Some [(0.1, 0.1), (0.2, 0.2)], basis = None\<rparr>) = Some 1 \<and>
   alpha \<lparr>tool = pen, width = Some 0.003, color = ''#ff5722'', alpha = Some 0.5,
         points = Some [(0.1, 0.1), (0.2, 0.2)], basis = None\<rparr> = Some (0.5 :: real) \<and>
   (1 :: real) \<noteq> 0.5"
  by (simp add: drawStroke_def Let_def)


section \<open>Strokes without points\<close>

text \<open>
  Claim C10. A stroke whose points are missing or empty is pushed unchanged by the eraser
  and does not count as modified: in the rebuilt collection it stands where it stood,
  between what the strokes before it and the strokes after it leave.
\<close>

theorem erase_keeps_pointless_stroke:
  assumes "points s = None \<or> points s = Some []"
  shows "eraseStroke point previous s = (False, [s]) \<and>
         snd (eraseLoop point previous (before @ s # after) (False, [])) =
           snd (eraseLoop point previous before (False, [])) @ s #
           snd (eraseLoop point previous after (False, [])) \<and>
         fst (eraseLoop point previous (before @ s # after) (False, [])) =
           (fst (eraseLoop point previous before (False, [])) \<or>
            fst (eraseLoop point previous after (False, [])))"
proof -
  have e: "eraseStroke point previous s = (False, [s])"
    using assms by (auto simp: eraseStroke_def)
  then show ?thesis by (auto simp: eraseLoop_eq)
qed

theorem erase_keeps_pointless_stroke_witness:
  "eraseStroke (0, 5 / 10) None (sampleStroke\<lparr>points := None\<rparr>) =
     (False, [sampleStroke\<lparr>points := None\<rparr>]) \<and>
   snd (eraseLoop (0, 5 / 10) None
          [sampleStroke, sampleStroke\<lparr>points := None\<rparr>, sampleStroke] (False, [])) =
     snd (eraseLoop (0, 5 / 10) None [sampleStroke] (False, [])) @
     sampleStroke\<lparr>points := None\<rparr> #
     snd (eraseLoop (0, 5 / 10) None [sampleStroke] (False, [])) \<and>
   fst (eraseLoop (0, 5 / 10) None [sampleStroke\<lparr>points := None\<rparr>] (False, [])) = False"
proof -
  have h: "points (sampleStroke\<lparr>points := None\<rparr>) = None \<or>
           points (sampleStroke\<lparr>points := None\<rparr>) = Some []"
    by simp
  note t = erase_keeps_pointless_stroke [OF h, of "(0, 5 / 10)" None "[sampleStroke]"
      "[sampleStroke]", unfolded append.simps]
  have f: "fst (eraseLoop (0, 5 / 10) None [sampleStroke\<lparr>points := None\<rparr>] (False, [])) = False"
    using erase_keeps_pointless_stroke [OF h, of "(0, 5 / 10)" None "[]" "[]"] by simp
  from t f show ?thesis by blast
qed


end
